theory Spec2Isabelle
  imports Main
begin

section \<open>Data model of the editor (src/client/editor/Editor.js)\<close>

text \<open>
  The editor works on mutable three.js objects that refer to each other (parent and
  children), so the objects live in an explicit store keyed by the object's numeric
  \<open>id\<close>. Everything the editor mutates is a field of the \<open>editor\<close> record, which every
  operation takes and returns. A raised exception is the outcome \<open>Throw\<close>, carrying the
  state reached when it was raised; a loop that may run forever returns \<open>None\<close>.
\<close>

type_synonym props = "(string \<times> string) list"

text \<open>A component: the generic record \<open>{name, props}\<close> plus the \<open>shouldSave\<close> flag; a
  registered component instance has the same three readable parts. \<open>props\<close> may be
  undefined (\<open>None\<close>).\<close>

record component =
  comp_name :: string
  comp_props :: "props option"
  shouldSave :: bool

record geometry =
  geo_uuid :: string
  geo_name :: string

record mat =
  mat_uuid :: string
  mat_name :: string

text \<open>\<open>object.material\<close> is one material or an array of materials.\<close>

datatype material = Material mat | MaterialArray "mat list"

text \<open>The three.js class of an object (what \<open>instanceof\<close> and \<open>this.constructor\<close> see).\<close>

datatype kind =
    Object3D | Scene | Mesh | SkinnedMesh | Camera
  | PointLight | DirectionalLight | SpotLight | HemisphereLight
  | CameraHelper | PointLightHelper | DirectionalLightHelper
  | SpotLightHelper | HemisphereLightHelper | SkeletonHelper

text \<open>\<open>object.userData\<close>: the generic component list (absent until the first generic
  component is added) and the flags the editor reads and writes.\<close>

record userData =
  ud_components :: "component list option"
  ud_inflated :: bool
  ud_selectionRoot :: "nat option"
  ud_url :: "string option"

record object3d =
  uuid :: string
  obj_name :: string
  kind :: kind
  parent :: "nat option"
  children :: "nat list"
  obj_geometry :: "geometry option"
  obj_material :: "material option"
  background :: "nat option"
  fog :: "nat option"
  userData :: userData

text \<open>The three.js heap: objects by id, registered component instances by address, the
  global id counter, and the uuid that the random generator gives to the object created
  with a given id.\<close>

record world =
  objects :: "nat \<rightharpoonup> object3d"
  instances :: "nat \<rightharpoonup> component"
  nextId :: nat
  uuids :: "nat \<Rightarrow> string"

text \<open>A component class (./components, not part of the sources at hand): its capabilities
  are parameters. \<open>inflate\<close> returns the address of the instance it attached,
  \<open>getComponent\<close> the address of the attached instance or nothing.\<close>

record componentClass =
  componentName :: string
  cc_inflate :: "nat \<Rightarrow> props option \<Rightarrow> world \<Rightarrow> world \<times> nat"
  cc_deflate :: "nat \<Rightarrow> world \<Rightarrow> world"
  cc_getComponent :: "world \<Rightarrow> nat \<Rightarrow> nat option"

datatype event =
    EditorCleared | SceneGraphChanged | SceneSet
  | ObjectSelected "nat option" | ObjectAdded nat | ObjectRemoved nat
  | HelperAdded nat | HelperRemoved nat | HistoryChanged

text \<open>Asynchronous operations that were started (their bodies continue after an
  \<open>await\<close> on the external loader, in a later turn).\<close>

datatype call = LoadSceneReference string nat | ReloadScene

text \<open>The \<open>parent\<close> argument of \<open>addObject\<close>: omitted, \<open>null\<close>, or an object.\<close>

datatype parentArg = Undefined | Null | Obj nat

datatype command = AddObjectCommand nat parentArg

record history =
  commands :: "command list"
  cursor :: nat

record editor =
  world :: world
  scene :: nat
  sceneHelpers :: nat
  camera :: nat
  geometries :: "string \<rightharpoonup> geometry"
  materials :: "string \<rightharpoonup> material"
  textures :: "string \<rightharpoonup> string"
  scripts :: "string \<rightharpoonup> string list"
  selected :: "nat option"
  helpers :: "nat \<rightharpoonup> nat"
  components :: "string \<rightharpoonup> componentClass"
  fileDependencies :: "string option \<rightharpoonup> nat list"
  sceneGraphChanged_active :: bool
  emitted :: "event list"
  asyncCalls :: "call list"
  history :: history
  storage :: "(string \<times> string) list"

datatype error = TypeError | AlreadyRegistered string

datatype 'a outcome = Return 'a | Throw error editor

definition andThen :: "editor outcome \<Rightarrow> (editor \<Rightarrow> 'a outcome) \<Rightarrow> 'a outcome" where
  "andThen r f = (case r of Throw e s \<Rightarrow> Throw e s | Return s \<Rightarrow> f s)"

text \<open>The state in which an outcome leaves the editor.\<close>

fun stateOf :: "editor outcome \<Rightarrow> editor" where
  "stateOf (Return s) = s"
| "stateOf (Throw e s) = s"

subsection \<open>Store access\<close>

definition obj :: "editor \<Rightarrow> nat \<Rightarrow> object3d option" where
  "obj st i = objects (world st) i"

definition setObjects :: "(nat \<rightharpoonup> object3d) \<Rightarrow> editor \<Rightarrow> editor" where
  "setObjects os st = st\<lparr>world := (world st)\<lparr>objects := os\<rparr>\<rparr>"

definition updObj :: "nat \<Rightarrow> (object3d \<Rightarrow> object3d) \<Rightarrow> (nat \<rightharpoonup> object3d) \<Rightarrow> (nat \<rightharpoonup> object3d)" where
  "updObj i f os = (case os i of None \<Rightarrow> os | Some ob \<Rightarrow> os(i \<mapsto> f ob))"

definition childrenOf :: "editor \<Rightarrow> nat \<Rightarrow> nat list" where
  "childrenOf st i = (case obj st i of None \<Rightarrow> [] | Some ob \<Rightarrow> children ob)"

text \<open>\<open>SceneReferenceComponent.componentName\<close>.\<close>

definition SceneReferenceComponent_componentName :: string where
  "SceneReferenceComponent_componentName = ''scene-reference''"

subsection \<open>Signals\<close>

text \<open>\<open>signal.dispatch(...)\<close>: the listeners are called, which the trace \<open>emitted\<close>
  records. Only \<open>sceneGraphChanged\<close> is ever deactivated by the editor; a dispatch on a
  deactivated signal does nothing.\<close>

definition dispatch :: "event \<Rightarrow> editor \<Rightarrow> editor" where
  "dispatch ev st = st\<lparr>emitted := emitted st @ [ev]\<rparr>"

definition dispatch_sceneGraphChanged :: "editor \<Rightarrow> editor" where
  "dispatch_sceneGraphChanged st =
     (if sceneGraphChanged_active st then dispatch SceneGraphChanged st else st)"

subsection \<open>three.js: Object3D.add, Object3D.remove\<close>

text \<open>Modelled from the spec: three.js (../vendor/three) is not part of the sources at
  hand. A node has an ordered sequence of children and a single parent back-reference;
  \<open>remove\<close> detaches a child that is in the children sequence, \<open>add\<close> detaches the
  object from its current parent and appends it (adding an object to itself is refused).\<close>

definition three_remove :: "nat \<Rightarrow> nat \<Rightarrow> (nat \<rightharpoonup> object3d) \<Rightarrow> (nat \<rightharpoonup> object3d)" where
  "three_remove p object os =
     (case os p of
        None \<Rightarrow> os
      | Some pob \<Rightarrow>
          if object \<in> set (children pob)
          then updObj p (\<lambda>ob. ob\<lparr>children := remove1 object (children ob)\<rparr>)
                 (updObj object (\<lambda>ob. ob\<lparr>parent := None\<rparr>) os)
          else os)"

definition three_add :: "nat \<Rightarrow> nat \<Rightarrow> (nat \<rightharpoonup> object3d) \<Rightarrow> (nat \<rightharpoonup> object3d)" where
  "three_add p object os =
     (if object = p then os
      else case os object of
        None \<Rightarrow> os
      | Some ob \<Rightarrow>
          (let os1 = (case parent ob of None \<Rightarrow> os | Some q \<Rightarrow> three_remove q object os)
           in updObj p (\<lambda>pob. pob\<lparr>children := children pob @ [object]\<rparr>)
                (updObj object (\<lambda>ob. ob\<lparr>parent := Some p\<rparr>) os1)))"

subsection \<open>Component registry\<close>

text \<open>registerComponent (Editor.js 446-454). The outcome carries the state after the call,
  also when it throws.\<close>

definition registerComponent :: "componentClass \<Rightarrow> editor \<Rightarrow> editor outcome" where
  "registerComponent componentClass st =
     (if componentName componentClass \<in> dom (components st)
      then Throw (AlreadyRegistered (componentName componentClass)) st
      else Return (st\<lparr>components := (components st)(componentName componentClass \<mapsto> componentClass)\<rparr>))"

text \<open>getComponent (Editor.js 500-506). The generic path reads
  \<open>object.userData._components.find\<close>, a TypeError when the list is undefined.\<close>

definition getComponent :: "editor \<Rightarrow> nat \<Rightarrow> string \<Rightarrow> error + component option" where
  "getComponent st object cname =
     (case components st cname of
        Some cls \<Rightarrow>
          Inr (case cc_getComponent cls (world st) object of
                 None \<Rightarrow> None
               | Some a \<Rightarrow> instances (world st) a)
      | None \<Rightarrow>
          (case obj st object of
             None \<Rightarrow> Inl TypeError
           | Some ob \<Rightarrow>
               (case ud_components (userData ob) of
                  None \<Rightarrow> Inl TypeError
                | Some cs \<Rightarrow> Inr (find (\<lambda>c. comp_name c = cname) cs))))"

text \<open>Modelled from the spec: the instance capability \<open>getProperty(name) -> value\<close> of a
  component (./components is not part of the sources at hand) reads \<open>props\<close>.\<close>

definition getProperty :: "component \<Rightarrow> string \<Rightarrow> string option" where
  "getProperty c k = (case comp_props c of None \<Rightarrow> None | Some ps \<Rightarrow> map_of ps k)"

text \<open>removeSceneRefDependency (Editor.js 245-255). The dependents of a resource id are a
  JavaScript Set: a list in insertion order; \<open>delete\<close> removes the element. While the
  scene-reference type is not registered, getComponent gives the plain record
  \<open>{name, props}\<close> of the generic list, which has no \<open>getProperty\<close>: the call on it is a
  TypeError, raised before anything is removed.\<close>

definition removeSceneRefDependency :: "nat \<Rightarrow> editor \<Rightarrow> editor outcome" where
  "removeSceneRefDependency object st =
     (case getComponent st object SceneReferenceComponent_componentName of
        Inl e \<Rightarrow> Throw e st
      | Inr None \<Rightarrow> Return st
      | Inr (Some sceneRefComponent) \<Rightarrow>
          (case components st SceneReferenceComponent_componentName of
             None \<Rightarrow> Throw TypeError st
           | Some cls \<Rightarrow>
               (case fileDependencies st (getProperty sceneRefComponent ''src'') of
                  None \<Rightarrow> Return st
                | Some dependencies \<Rightarrow>
                    Return (st\<lparr>fileDependencies := (fileDependencies st)
                       (getProperty sceneRefComponent ''src'' \<mapsto> removeAll object dependencies)\<rparr>))))"

text \<open>loadSceneReference and reloadScene (Editor.js 228-243, 257-268) are asynchronous:
  a call runs the body up to the first \<open>await\<close> and returns a promise; an exception in
  the body rejects the promise instead of reaching the caller.\<close>

definition loadSceneReference :: "string \<Rightarrow> nat \<Rightarrow> editor \<Rightarrow> editor" where
  "loadSceneReference url p st =
     stateOf (removeSceneRefDependency p
        (st\<lparr>asyncCalls := asyncCalls st @ [LoadSceneReference url p]\<rparr>))"

definition reloadScene :: "editor \<Rightarrow> editor" where
  "reloadScene st = st\<lparr>asyncCalls := asyncCalls st @ [ReloadScene]\<rparr>"

text \<open>\<open>Array.prototype.findIndex\<close> (-1 when nothing matches) and
  \<open>Array.prototype.splice(start, 1)\<close> (a negative start counts from the end).\<close>

fun findIndex :: "('a \<Rightarrow> bool) \<Rightarrow> 'a list \<Rightarrow> int" where
  "findIndex P [] = -1"
| "findIndex P (x # xs) =
     (if P x then 0 else (let i = findIndex P xs in if i < 0 then -1 else i + 1))"

definition splice1 :: "int \<Rightarrow> 'a list \<Rightarrow> 'a list" where
  "splice1 start xs =
     (let len = int (length xs);
          k = (if start < 0 then max (len + start) 0 else min start len)
      in take (nat k) xs @ drop (nat k + 1) xs)"

text \<open>addComponent (Editor.js 456-481); returns the component.\<close>

definition addComponent ::
  "nat \<Rightarrow> string \<Rightarrow> props option \<Rightarrow> bool \<Rightarrow> editor \<Rightarrow> (component \<times> editor) outcome" where
  "addComponent object cname ps skipSave st =
     (case components st cname of
        Some cls \<Rightarrow>
          (let (w1, a) = cc_inflate cls object ps (world st);
               st1 = st\<lparr>world := w1\<rparr>
           in if cname = SceneReferenceComponent_componentName \<and> ps = None
              then Throw TypeError st1
              else
               (let st2 = (if cname = SceneReferenceComponent_componentName
                           then (case map_of (the ps) ''src'' of
                                   None \<Rightarrow> st1
                                 | Some src \<Rightarrow> if src = [] then st1
                                               else loadSceneReference src object st1)
                           else st1)
                in case instances (world st2) a of
                     None \<Rightarrow> Throw TypeError st2
                   | Some c \<Rightarrow>
                       Return (c\<lparr>shouldSave := \<not> skipSave\<rparr>,
                         st2\<lparr>world := (world st2)\<lparr>instances :=
                            (instances (world st2))(a \<mapsto> c\<lparr>shouldSave := \<not> skipSave\<rparr>)\<rparr>\<rparr>)))
      | None \<Rightarrow>
          (case obj st object of
             None \<Rightarrow> Throw TypeError st
           | Some ob \<Rightarrow>
               (let component = \<lparr>comp_name = cname, comp_props = ps, shouldSave = \<not> skipSave\<rparr>;
                    cs = (case ud_components (userData ob) of None \<Rightarrow> [] | Some cs \<Rightarrow> cs)
                in Return (component,
                     setObjects ((objects (world st))(object \<mapsto>
                        ob\<lparr>userData := (userData ob)\<lparr>ud_components := Some (cs @ [component])\<rparr>\<rparr>)) st))))"

text \<open>removeComponent (Editor.js 483-498).\<close>

definition removeComponent :: "nat \<Rightarrow> string \<Rightarrow> editor \<Rightarrow> editor outcome" where
  "removeComponent object cname st =
     (case components st cname of
        Some cls \<Rightarrow>
          andThen (if cname = SceneReferenceComponent_componentName
                   then removeSceneRefDependency object st else Return st)
            (\<lambda>st1. Return (st1\<lparr>world := cc_deflate cls object (world st1)\<rparr>))
      | None \<Rightarrow>
          (case obj st object of
             None \<Rightarrow> Throw TypeError st
           | Some ob \<Rightarrow>
               (case ud_components (userData ob) of
                  None \<Rightarrow> Return st
                | Some cs \<Rightarrow>
                    Return (setObjects ((objects (world st))(object \<mapsto>
                      ob\<lparr>userData := (userData ob)\<lparr>ud_components :=
                         Some (splice1 (findIndex (\<lambda>c. comp_name c = cname) cs) cs)\<rparr>\<rparr>)) st))))"

text \<open>The generic component list of a node, as a reader sees it.\<close>

definition genericComponents :: "editor \<Rightarrow> nat \<Rightarrow> component list option" where
  "genericComponents st object =
     (case obj st object of None \<Rightarrow> None | Some ob \<Rightarrow> ud_components (userData ob))"

subsection \<open>Registry store\<close>

text \<open>addGeometry, addMaterial (Editor.js 334-345): \<open>table[x.uuid] = x\<close>. An array of
  materials has no \<open>uuid\<close>, so its key is the string \<open>undefined\<close>.\<close>

definition addGeometry :: "geometry \<Rightarrow> editor \<Rightarrow> editor" where
  "addGeometry g st = st\<lparr>geometries := (geometries st)(geo_uuid g \<mapsto> g)\<rparr>"

definition material_key :: "material \<Rightarrow> string" where
  "material_key m = (case m of Material x \<Rightarrow> mat_uuid x | MaterialArray xs \<Rightarrow> ''undefined'')"

definition addMaterial :: "material \<Rightarrow> editor \<Rightarrow> editor" where
  "addMaterial m st = st\<lparr>materials := (materials st)(material_key m \<mapsto> m)\<rparr>"

subsection \<open>Helpers\<close>

text \<open>Modelled from the spec: the three.js constructors (../vendor/three) are not part of
  the sources at hand. A new object takes the next id of the global counter, has no
  parent, no children and empty \<open>userData\<close>. The inner parts of a helper are left out.\<close>

definition emptyUserData :: userData where
  "emptyUserData =
     \<lparr>ud_components = None, ud_inflated = False, ud_selectionRoot = None, ud_url = None\<rparr>"

definition newObject :: "kind \<Rightarrow> world \<Rightarrow> nat \<times> world" where
  "newObject k w =
     (nextId w,
      w\<lparr>objects := (objects w)(nextId w \<mapsto>
           \<lparr>uuid = uuids w (nextId w), obj_name = [], kind = k, parent = None, children = [],
            obj_geometry = None, obj_material = None, background = None, fog = None,
            userData = emptyUserData\<rparr>),
        nextId := Suc (nextId w)\<rparr>)"

text \<open>The \<open>instanceof\<close> chain of addHelper, in the order of the source.\<close>

definition helperKind :: "kind \<Rightarrow> kind option" where
  "helperKind k =
     (if k = Camera then Some CameraHelper
      else if k = PointLight then Some PointLightHelper
      else if k = DirectionalLight then Some DirectionalLightHelper
      else if k = SpotLight then Some SpotLightHelper
      else if k = HemisphereLight then Some HemisphereLightHelper
      else if k = SkinnedMesh then Some SkeletonHelper
      else None)"

text \<open>The geometry and the material shared by all pickers (the closure of addHelper).\<close>

definition picker_geometry :: geometry where
  "picker_geometry = \<lparr>geo_uuid = ''picker-geometry'', geo_name = []\<rparr>"

definition picker_material :: material where
  "picker_material = Material \<lparr>mat_uuid = ''picker-material'', mat_name = []\<rparr>"

text \<open>addHelper (Editor.js 372-407).\<close>

definition addHelper :: "nat \<Rightarrow> nat \<Rightarrow> editor \<Rightarrow> editor" where
  "addHelper object selectionRoot st =
     (if helpers st object \<noteq> None then st
      else case obj st object of
        None \<Rightarrow> st
      | Some ob \<Rightarrow>
          (case helperKind (kind ob) of
             None \<Rightarrow> st
           | Some hk \<Rightarrow>
               (let (helper, w1) = newObject hk (world st);
                    (picker, w2) = newObject Mesh w1;
                    os3 = updObj picker (\<lambda>pob. pob\<lparr>obj_name := ''picker'',
                            obj_geometry := Some picker_geometry,
                            obj_material := Some picker_material,
                            userData := (userData pob)\<lparr>ud_selectionRoot := Some selectionRoot\<rparr>\<rparr>)
                          (objects w2);
                    os4 = three_add helper picker os3;
                    os5 = three_add (sceneHelpers st) helper os4
                in dispatch (HelperAdded helper)
                     (st\<lparr>world := w2\<lparr>objects := os5\<rparr>,
                         helpers := (helpers st)(selectionRoot \<mapsto> helper)\<rparr>))))"

text \<open>removeHelper (Editor.js 409-418).\<close>

definition removeHelper :: "nat \<Rightarrow> editor \<Rightarrow> editor outcome" where
  "removeHelper object st =
     (case helpers st object of
        None \<Rightarrow> Return st
      | Some helper \<Rightarrow>
          (case obj st helper of
             None \<Rightarrow> Throw TypeError st
           | Some hob \<Rightarrow>
               (case parent hob of
                  None \<Rightarrow> Throw TypeError st
                | Some p \<Rightarrow>
                    Return (dispatch (HelperRemoved helper)
                      ((setObjects (three_remove p helper (objects (world st))) st)
                         \<lparr>helpers := (helpers st)(object := None)\<rparr>)))))"

subsection \<open>three.js: Object3D.traverse\<close>

text \<open>Modelled from the spec: three.js (../vendor/three) is not part of the sources at
  hand. \<open>traverse\<close> calls the callback on the object and then traverses each child in
  order. The loop runs over the live children array with the length read at its start;
  an index beyond the array reads \<open>undefined\<close>, whose traversal is a TypeError.
  \<open>traverseLoop cb this i l\<close> is the loop of \<open>this\<close> from index \<open>i\<close> with cached
  length \<open>l\<close>.\<close>

partial_function (option) traverseLoop ::
  "(nat \<Rightarrow> editor \<Rightarrow> editor outcome) \<Rightarrow> nat \<Rightarrow> nat \<Rightarrow> nat \<Rightarrow> editor \<Rightarrow> editor outcome option" where
  "traverseLoop cb this i l st =
     (if i < l then
        (if i < length (childrenOf st this) then
           (case cb (childrenOf st this ! i) st of
              Throw e s \<Rightarrow> Some (Throw e s)
            | Return st1 \<Rightarrow>
                Option.bind
                  (traverseLoop cb (childrenOf st this ! i) 0
                     (length (childrenOf st1 (childrenOf st this ! i))) st1)
                  (\<lambda>r. case r of
                     Throw e s \<Rightarrow> Some (Throw e s)
                   | Return st2 \<Rightarrow> traverseLoop cb this (Suc i) l st2))
         else Some (Throw TypeError st))
      else Some (Return st))"

definition traverse :: "(nat \<Rightarrow> editor \<Rightarrow> editor outcome) \<Rightarrow> nat \<Rightarrow> editor \<Rightarrow> editor outcome option" where
  "traverse cb this st =
     (case cb this st of
        Throw e s \<Rightarrow> Some (Throw e s)
      | Return st1 \<Rightarrow> traverseLoop cb this 0 (length (childrenOf st1 this)) st1)"

subsection \<open>Scene graph mutation\<close>

text \<open>The callback of the traversal in addObject (Editor.js 280-285).\<close>

definition addObject_visit :: "nat \<Rightarrow> nat \<Rightarrow> editor \<Rightarrow> editor outcome" where
  "addObject_visit object child st =
     (case obj st child of
        None \<Rightarrow> Throw TypeError st
      | Some ob \<Rightarrow>
          (let st1 = (case obj_geometry ob of None \<Rightarrow> st | Some g \<Rightarrow> addGeometry g st);
               st2 = (case obj_material ob of None \<Rightarrow> st1 | Some m \<Rightarrow> addMaterial m st1)
           in Return (addHelper child object st2)))"

text \<open>addObject (Editor.js 277-295).\<close>

definition addObject :: "nat \<Rightarrow> parentArg \<Rightarrow> editor \<Rightarrow> editor outcome option" where
  "addObject object parentArg st =
     Option.bind (traverse (addObject_visit object) object st)
       (\<lambda>r. case r of
          Throw e s \<Rightarrow> Some (Throw e s)
        | Return st1 \<Rightarrow>
            (case parentArg of
               Null \<Rightarrow> Some (Throw TypeError st1)
             | Undefined \<Rightarrow>
                 Some (Return (dispatch_sceneGraphChanged (dispatch (ObjectAdded object)
                   (setObjects (three_add (scene st1) object (objects (world st1))) st1))))
             | Obj p \<Rightarrow>
                 Some (Return (dispatch_sceneGraphChanged (dispatch (ObjectAdded object)
                   (setObjects (three_add p object (objects (world st1))) st1))))))"

text \<open>The callback of the traversal in removeObject (Editor.js 323-326).\<close>

definition removeObject_visit :: "nat \<Rightarrow> editor \<Rightarrow> editor outcome" where
  "removeObject_visit child st = andThen (removeHelper child st) (removeSceneRefDependency child)"

text \<open>removeObject (Editor.js 320-332).\<close>

definition removeObject :: "nat \<Rightarrow> editor \<Rightarrow> editor outcome option" where
  "removeObject object st =
     (case obj st object of
        None \<Rightarrow> Some (Throw TypeError st)
      | Some ob \<Rightarrow>
          (case parent ob of
             None \<Rightarrow> Some (Return st)
           | Some p0 \<Rightarrow>
               Option.bind (traverse removeObject_visit object st)
                 (\<lambda>r. case r of
                    Throw e s \<Rightarrow> Some (Throw e s)
                  | Return st1 \<Rightarrow>
                      (case obj st1 object of
                         None \<Rightarrow> Some (Throw TypeError st1)
                       | Some ob1 \<Rightarrow>
                           (case parent ob1 of
                              None \<Rightarrow> Some (Throw TypeError st1)
                            | Some p \<Rightarrow>
                                Some (Return (dispatch_sceneGraphChanged
                                  (dispatch (ObjectRemoved object)
                                    (setObjects (three_remove p object (objects (world st1))) st1)))))))))"

text \<open>\<open>while (this.scene.children.length > 0) this.removeObject(this.scene.children[0])\<close>
  (Editor.js 183-185 and 642-646).\<close>

partial_function (option) removeAllChildren :: "editor \<Rightarrow> editor outcome option" where
  "removeAllChildren st =
     (case childrenOf st (scene st) of
        [] \<Rightarrow> Some (Return st)
      | c # cs \<Rightarrow>
          Option.bind (removeObject c st)
            (\<lambda>r. case r of
               Throw e s \<Rightarrow> Some (Throw e s)
             | Return st1 \<Rightarrow> removeAllChildren st1))"

text \<open>\<open>while (scene.children.length > 0) this.addObject(scene.children[0])\<close>
  (Editor.js 187-189).\<close>

partial_function (option) addAllChildren :: "nat \<Rightarrow> editor \<Rightarrow> editor outcome option" where
  "addAllChildren source st =
     (case childrenOf st source of
        [] \<Rightarrow> Some (Return st)
      | c # cs \<Rightarrow>
          Option.bind (addObject c Undefined st)
            (\<lambda>r. case r of
               Throw e s \<Rightarrow> Some (Throw e s)
             | Return st1 \<Rightarrow> addAllChildren source st1))"

text \<open>\<open>JSON.parse(JSON.stringify(userData))\<close>: a copy by value. A back-reference to the
  selection root is not carried over as a reference (it is not enumerable, or it is
  serialised).\<close>

definition json_copy :: "userData \<Rightarrow> userData" where
  "json_copy ud = ud\<lparr>ud_selectionRoot := None\<rparr>"

text \<open>setScene (Editor.js 170-194).\<close>

definition setScene :: "nat \<Rightarrow> editor \<Rightarrow> editor outcome option" where
  "setScene source st =
     (case obj st source of
        None \<Rightarrow> Some (Throw TypeError st)
      | Some src \<Rightarrow>
          (let st1 = setObjects (updObj (scene st) (\<lambda>ob. ob\<lparr>
                        uuid := uuid src, obj_name := obj_name src,
                        background := (if background src \<noteq> None then background src else background ob),
                        fog := (if fog src \<noteq> None then fog src else fog ob),
                        userData := json_copy (userData src)\<rparr>) (objects (world st))) st;
               st2 = st1\<lparr>sceneGraphChanged_active := False\<rparr>
           in Option.bind (removeAllChildren st2)
                (\<lambda>r. case r of
                   Throw e s \<Rightarrow> Some (Throw e s)
                 | Return st3 \<Rightarrow>
                     Option.bind (addAllChildren source st3)
                       (\<lambda>r. case r of
                          Throw e s \<Rightarrow> Some (Throw e s)
                        | Return st4 \<Rightarrow>
                            Some (Return (dispatch SceneSet
                              (st4\<lparr>sceneGraphChanged_active := True\<rparr>)))))))"

text \<open>select, deselect (Editor.js 556-562, 588-590).\<close>

definition select :: "nat option \<Rightarrow> editor \<Rightarrow> editor" where
  "select object st =
     (if selected st = object then st
      else dispatch (ObjectSelected object) (st\<lparr>selected := object\<rparr>))"

definition deselect :: "editor \<Rightarrow> editor" where
  "deselect st = select None st"

text \<open>Modelled from the spec: History and Storage (./History, ./Storage) are not part of
  the sources at hand. History.clear discards all recorded commands and resets the
  cursor; Storage.clear empties the store.\<close>

definition history_clear :: "editor \<Rightarrow> editor" where
  "history_clear st = st\<lparr>history := \<lparr>commands = [], cursor = 0\<rparr>\<rparr>"

definition storage_clear :: "editor \<Rightarrow> editor" where
  "storage_clear st = st\<lparr>storage := []\<rparr>"

text \<open>\<open>this.camera.copy(this.DEFAULT_CAMERA)\<close>: the default camera is made by the
  constructor with the name Camera, empty \<open>userData\<close> and no children.\<close>

definition camera_copy_default :: "editor \<Rightarrow> editor" where
  "camera_copy_default st =
     setObjects (updObj (camera st)
        (\<lambda>ob. ob\<lparr>obj_name := ''Camera'', userData := emptyUserData\<rparr>) (objects (world st))) st"

text \<open>clear (Editor.js 634-656). \<open>this.scene.background.setHex\<close> is a TypeError when
  the background is null.\<close>

definition clear :: "editor \<Rightarrow> editor outcome option" where
  "clear st =
     (let st1 = camera_copy_default (storage_clear (history_clear st))
      in case obj st1 (scene st1) of
           None \<Rightarrow> Some (Throw TypeError st1)
         | Some sc \<Rightarrow>
             (case background sc of
                None \<Rightarrow> Some (Throw TypeError st1)
              | Some b \<Rightarrow>
                  Option.bind
                    (removeAllChildren
                       (setObjects (updObj (scene st1)
                          (\<lambda>ob. ob\<lparr>background := Some 11184810, fog := None\<rparr>)
                          (objects (world st1))) st1))
                    (\<lambda>r. case r of
                       Throw e s \<Rightarrow> Some (Throw e s)
                     | Return st2 \<Rightarrow>
                         Some (Return (dispatch EditorCleared
                           (deselect (st2\<lparr>geometries := Map.empty, materials := Map.empty,
                               textures := Map.empty, scripts := Map.empty\<rparr>)))))))"

subsection \<open>Dependency tracker\<close>

text \<open>onFileChanged (Editor.js 134-146). The loop runs over the live Set: an entry that was
  deleted before its turn is skipped. The body starts asynchronous operations, which only
  delete from the sets before their first \<open>await\<close>.\<close>

fun onFileChanged_loop :: "string \<Rightarrow> nat list \<Rightarrow> editor \<Rightarrow> editor outcome" where
  "onFileChanged_loop url [] st = Return st"
| "onFileChanged_loop url (dependency # rest) st =
     (if dependency \<notin> set (case fileDependencies st (Some url) of None \<Rightarrow> [] | Some ds \<Rightarrow> ds)
      then onFileChanged_loop url rest st
      else case getComponent st dependency SceneReferenceComponent_componentName of
             Inl e \<Rightarrow> Throw e st
           | Inr (Some c) \<Rightarrow> onFileChanged_loop url rest (loadSceneReference url dependency st)
           | Inr None \<Rightarrow> onFileChanged_loop url rest (reloadScene st))"

definition onFileChanged :: "string \<Rightarrow> editor \<Rightarrow> editor outcome" where
  "onFileChanged url st =
     (case fileDependencies st (Some url) of
        None \<Rightarrow> Return st
      | Some dependencies \<Rightarrow> onFileChanged_loop url dependencies st)"

subsection \<open>Duplicate\<close>

text \<open>Modelled from the spec: three.js (../vendor/three) is not part of the sources at
  hand. \<open>object.clone(false)\<close> makes a new object of the same class with the same name,
  the same shared geometry and material, a copy by value of \<open>userData\<close>, no parent and no
  children.\<close>

definition clone_object :: "nat \<Rightarrow> editor \<Rightarrow> (nat \<times> editor) option" where
  "clone_object object st =
     (case obj st object of
        None \<Rightarrow> None
      | Some ob \<Rightarrow>
          (let (clone, w1) = newObject (kind ob) (world st)
           in Some (clone,
                st\<lparr>world := w1\<lparr>objects := updObj clone (\<lambda>c. c\<lparr>
                     obj_name := obj_name ob, obj_geometry := obj_geometry ob,
                     obj_material := obj_material ob, background := background ob,
                     fog := fog ob, userData := json_copy (userData ob)\<rparr>) (objects w1)\<rparr>\<rparr>)))"

text \<open>The loop over \<open>clone.userData._components\<close> in _cloneAndInflate (Editor.js 611-613):
  a \<open>for ... of\<close> over the live array, which reads the length at every step.\<close>

partial_function (option) inflateLoop :: "nat \<Rightarrow> nat \<Rightarrow> editor \<Rightarrow> editor outcome option" where
  "inflateLoop clone i st =
     (case genericComponents st clone of
        None \<Rightarrow> Some (Throw TypeError st)
      | Some cs \<Rightarrow>
          if i < length cs then
            (case addComponent clone (comp_name (cs ! i)) (comp_props (cs ! i)) False st of
               Throw e s \<Rightarrow> Some (Throw e s)
             | Return (c, st1) \<Rightarrow> inflateLoop clone (Suc i) st1)
          else Some (Return st))"

text \<open>_cloneAndInflate (Editor.js 608-623). \<open>CloneAndInflate object root\<close> is the call
  itself, \<open>CloneChildren object clone root i\<close> its loop over \<open>object.children\<close> from
  index \<open>i\<close>.\<close>

datatype cloneCall = CloneAndInflate nat "nat option" | CloneChildren nat nat nat nat

partial_function (option) cloneRec :: "cloneCall \<Rightarrow> editor \<Rightarrow> (nat \<times> editor) outcome option" where
  "cloneRec c st =
     (case c of
        CloneAndInflate object root \<Rightarrow>
          (case clone_object object st of
             None \<Rightarrow> Some (Throw TypeError st)
           | Some (clone, st1) \<Rightarrow>
               Option.bind
                 (case genericComponents st1 clone of
                    None \<Rightarrow> Some (Return st1)
                  | Some cs \<Rightarrow> inflateLoop clone 0 st1)
                 (\<lambda>r. case r of
                    Throw e s \<Rightarrow> Some (Throw e s)
                  | Return st2 \<Rightarrow>
                      cloneRec (CloneChildren object clone
                                  (case root of None \<Rightarrow> clone | Some r \<Rightarrow> r) 0) st2))
      | CloneChildren object clone root i \<Rightarrow>
          (if i < length (childrenOf st object) then
             (case obj st (childrenOf st object ! i) of
                None \<Rightarrow> Some (Throw TypeError st)
              | Some child \<Rightarrow>
                  if ud_inflated (userData child)
                  then cloneRec (CloneChildren object clone root (Suc i)) st
                  else Option.bind (cloneRec (CloneAndInflate (childrenOf st object ! i) (Some root)) st)
                         (\<lambda>r. case r of
                            Throw e s \<Rightarrow> Some (Throw e s)
                          | Return (childClone, st1) \<Rightarrow>
                              cloneRec (CloneChildren object clone root (Suc i))
                                (setObjects
                                   (updObj childClone
                                      (\<lambda>ob. ob\<lparr>userData := (userData ob)\<lparr>ud_selectionRoot := Some root\<rparr>\<rparr>)
                                      (three_add clone childClone (objects (world st1)))) st1)))
           else Some (Return (clone, st))))"

definition cloneAndInflate :: "nat \<Rightarrow> nat option \<Rightarrow> editor \<Rightarrow> (nat \<times> editor) outcome option" where
  "cloneAndInflate object root st = cloneRec (CloneAndInflate object root) st"

text \<open>Modelled from the spec: History and AddObjectCommand (./History,
  ./commands/AddObjectCommand) are not part of the sources at hand. \<open>execute\<close> truncates
  the redo tail, runs the command, appends it, advances the cursor and emits "history
  changed"; the add-object command adds its object under its parent.\<close>

definition execute :: "command \<Rightarrow> editor \<Rightarrow> editor outcome option" where
  "execute cmd st =
     (let st1 = st\<lparr>history := (history st)\<lparr>commands := take (cursor (history st)) (commands (history st))\<rparr>\<rparr>
      in Option.bind (case cmd of AddObjectCommand object p \<Rightarrow> addObject object p st1)
           (\<lambda>r. case r of
              Throw e s \<Rightarrow> Some (Throw e s)
            | Return st2 \<Rightarrow>
                Some (Return (dispatch HistoryChanged
                  (st2\<lparr>history := \<lparr>commands = commands (history st2) @ [cmd],
                                   cursor = Suc (cursor (history st2))\<rparr>\<rparr>)))))"

text \<open>duplicateObject (Editor.js 625-628).\<close>

definition duplicateObject :: "nat \<Rightarrow> editor \<Rightarrow> editor outcome option" where
  "duplicateObject object st =
     Option.bind (cloneAndInflate object None st)
       (\<lambda>r. case r of
          Throw e s \<Rightarrow> Some (Throw e s)
        | Return (clone, st1) \<Rightarrow>
            (case obj st1 object of
               None \<Rightarrow> Some (Throw TypeError st1)
             | Some ob \<Rightarrow>
                 execute (AddObjectCommand clone
                            (case parent ob of None \<Rightarrow> Null | Some p \<Rightarrow> Obj p)) st1))"

section \<open>Example states\<close>

text \<open>Concrete objects, a concrete component class and a concrete editor state, on which
  the theorems below are instantiated.\<close>

definition fixture_userData :: "component list option \<Rightarrow> userData" where
  "fixture_userData cs =
     \<lparr>ud_components = cs, ud_inflated = False, ud_selectionRoot = None, ud_url = None\<rparr>"

definition fixture_object :: "kind \<Rightarrow> nat option \<Rightarrow> nat list \<Rightarrow> component list option \<Rightarrow> object3d" where
  "fixture_object k p cs comps =
     \<lparr>uuid = ''u'', obj_name = [], kind = k, parent = p, children = cs,
      obj_geometry = None, obj_material = None, background = Some 0, fog = None,
      userData = fixture_userData comps\<rparr>"

text \<open>A class that keeps the instance of a node at the address equal to the node's id.\<close>

definition fixture_class :: "string \<Rightarrow> componentClass" where
  "fixture_class n =
     \<lparr>componentName = n,
      cc_inflate = (\<lambda>object ps w. (w\<lparr>instances := (instances w)(object \<mapsto>
         \<lparr>comp_name = n, comp_props = ps, shouldSave = True\<rparr>)\<rparr>, object)),
      cc_deflate = (\<lambda>object w. w\<lparr>instances := (instances w)(object := None)\<rparr>),
      cc_getComponent = (\<lambda>w object. if object \<in> dom (instances w) then Some object else None)\<rparr>"

definition fixture_editor :: "(nat \<rightharpoonup> object3d) \<Rightarrow> editor" where
  "fixture_editor os =
     \<lparr>world = \<lparr>objects = os, instances = Map.empty, nextId = 10, uuids = (\<lambda>n. ''u'')\<rparr>,
      scene = 0, sceneHelpers = 1, camera = 2,
      geometries = Map.empty, materials = Map.empty, textures = Map.empty,
      scripts = Map.empty, selected = None, helpers = Map.empty,
      components = Map.empty, fileDependencies = Map.empty,
      sceneGraphChanged_active = True, emitted = [], asyncCalls = [],
      history = \<lparr>commands = [], cursor = 0\<rparr>, storage = []\<rparr>"

definition fixture_component :: "string \<Rightarrow> component" where
  "fixture_component n = \<lparr>comp_name = n, comp_props = None, shouldSave = True\<rparr>"

text \<open>A node with two generic components, a and b, neither of a registered type.\<close>

definition fixture_two_generic :: editor where
  "fixture_two_generic = fixture_editor
     [0 \<mapsto> fixture_object Scene None [3] None,
      3 \<mapsto> fixture_object Mesh (Some 0) []
             (Some [fixture_component ''a'', fixture_component ''b''])]"

section \<open>Predicates of the statements\<close>

text \<open>From index \<open>i\<close> on, the loop over the component list of \<open>clone\<close> has an entry
  to visit, and every entry of the list has an unregistered type name.\<close>

definition allGeneric :: "editor \<Rightarrow> nat \<Rightarrow> nat \<Rightarrow> bool" where
  "allGeneric st clone i =
     (case genericComponents st clone of
        None \<Rightarrow> False
      | Some cs \<Rightarrow> i < length cs \<and> (\<forall>c \<in> set cs. components st (comp_name c) = None))"

text \<open>A node carries a scene-reference component when reading it gives an instance.\<close>

definition carriesSceneReference :: "editor \<Rightarrow> nat \<Rightarrow> bool" where
  "carriesSceneReference st d =
     (case getComponent st d SceneReferenceComponent_componentName of
        Inr (Some c) \<Rightarrow> True
      | _ \<Rightarrow> False)"

text \<open>What onFileChanged starts for a dependent node.\<close>

definition reaction :: "editor \<Rightarrow> string \<Rightarrow> nat \<Rightarrow> call" where
  "reaction st url d = (if carriesSceneReference st d then LoadSceneReference url d else ReloadScene)"

text \<open>The reaction in the words of the specification: a reference reload exactly when the
  node carries a scene-reference component whose \<open>src\<close> equals the resource id.\<close>

definition spec_reaction :: "editor \<Rightarrow> string \<Rightarrow> nat \<Rightarrow> call" where
  "spec_reaction st url d =
     (case getComponent st d SceneReferenceComponent_componentName of
        Inr (Some c) \<Rightarrow>
          if getProperty c ''src'' = Some url then LoadSceneReference url d else ReloadScene
      | _ \<Rightarrow> ReloadScene)"

text \<open>Node 3 holds a scene reference to b and is still listed as a dependent of a; the
  scene root 0 was loaded from a.\<close>

definition fixture_stale_reference :: editor where
  "fixture_stale_reference =
     (fixture_editor
        [0 \<mapsto> fixture_object Scene None [3] None,
         3 \<mapsto> fixture_object Object3D (Some 0) [] None])
     \<lparr>world := \<lparr>objects = [0 \<mapsto> fixture_object Scene None [3] None,
                            3 \<mapsto> fixture_object Object3D (Some 0) [] None],
                 instances = [3 \<mapsto> \<lparr>comp_name = ''scene-reference'',
                                       comp_props = Some [(''src'', ''b'')], shouldSave = True\<rparr>],
                 nextId = 10, uuids = (\<lambda>n. ''u'')\<rparr>,
       components := [''scene-reference'' \<mapsto> fixture_class ''scene-reference''],
       fileDependencies := [Some ''a'' \<mapsto> [3, 0], Some ''b'' \<mapsto> [3]]\<rparr>"

text \<open>The finite tree that the children references below a node unfold to; a node's
  children sequence lists the roots of its subtrees.\<close>

datatype tree = Tree nat "tree list"

fun root :: "tree \<Rightarrow> nat" where
  "root (Tree i ts) = i"

fun preorder :: "tree \<Rightarrow> nat list" where
  "preorder (Tree i ts) = i # concat (map preorder ts)"

fun shaped :: "editor \<Rightarrow> tree \<Rightarrow> bool" where
  "shaped st (Tree i ts) = (childrenOf st i = map root ts \<and> (\<forall>t \<in> set ts. shaped st t))"

text \<open>The callback applied to a sequence of nodes, stopping at the first exception.\<close>

fun run :: "(nat \<Rightarrow> editor \<Rightarrow> editor outcome) \<Rightarrow> nat list \<Rightarrow> editor \<Rightarrow> editor outcome" where
  "run cb [] st = Return st"
| "run cb (x # xs) st = andThen (cb x st) (run cb xs)"

text \<open>The children sequence and the parent of an object in a store.\<close>

definition kids :: "(nat \<rightharpoonup> object3d) \<Rightarrow> nat \<Rightarrow> nat list" where
  "kids os i = (case os i of None \<Rightarrow> [] | Some ob \<Rightarrow> children ob)"

definition par :: "(nat \<rightharpoonup> object3d) \<Rightarrow> nat \<Rightarrow> nat option" where
  "par os i = (case os i of None \<Rightarrow> None | Some ob \<Rightarrow> parent ob)"

definition parentOf :: "editor \<Rightarrow> nat \<Rightarrow> nat option" where
  "parentOf st i = par (objects (world st)) i"

text \<open>The dependents recorded for a resource id (none when the id is not tracked).\<close>

definition dependents :: "editor \<Rightarrow> string option \<Rightarrow> nat list" where
  "dependents st k = (case fileDependencies st k of None \<Rightarrow> [] | Some ds \<Rightarrow> ds)"

definition isHelperRemoved :: "event \<Rightarrow> bool" where
  "isHelperRemoved e = (case e of HelperRemoved h \<Rightarrow> True | _ \<Rightarrow> False)"

text \<open>The helpers of the nodes in \<open>X\<close> sit in the overlay scene, which is not in \<open>X\<close>; no
  helper is itself in \<open>X\<close>, and no helper is registered for two nodes of \<open>X\<close>.\<close>

definition helpersIn :: "nat set \<Rightarrow> editor \<Rightarrow> bool" where
  "helpersIn X s =
     (sceneHelpers s \<notin> X \<and>
      (\<forall>i \<in> X. \<forall>h. helpers s i = Some h \<longrightarrow>
         h \<notin> X \<and> parentOf s h = Some (sceneHelpers s) \<and>
         (\<forall>j \<in> X. helpers s j = Some h \<longrightarrow> j = i)))"

text \<open>A component class whose \<open>getComponent\<close> looks at the node it is given (and at the
  component instances) only.\<close>

definition nodeLocal :: "componentClass \<Rightarrow> bool" where
  "nodeLocal cls =
     (\<forall>w w' d. objects w d = objects w' d \<and> instances w = instances w' \<longrightarrow>
        cc_getComponent cls w d = cc_getComponent cls w' d)"

text \<open>What removing the subtree \<open>t\<close> relies on: the children references unfold to \<open>t\<close>, the
  helpers of its nodes are in place, the overlay scene lists no helper twice, and the
  scene-reference type is registered with a class that reads the node only.\<close>

definition removable :: "editor \<Rightarrow> tree \<Rightarrow> bool" where
  "removable st t =
     (shaped st t \<and> helpersIn (set (preorder t)) st \<and>
      distinct (childrenOf st (sceneHelpers st)) \<and>
      (case components st SceneReferenceComponent_componentName of
         None \<Rightarrow> False
       | Some cls \<Rightarrow> nodeLocal cls))"

text \<open>What a removal traversal over nodes of \<open>X\<close> may change between two states.\<close>

definition removalFrame :: "nat set \<Rightarrow> editor \<Rightarrow> editor \<Rightarrow> bool" where
  "removalFrame X s s' =
     (s' = s\<lparr>world := (world s)\<lparr>objects := objects (world s')\<rparr>, helpers := helpers s',
             fileDependencies := fileDependencies s', emitted := emitted s'\<rparr> \<and>
      (\<forall>j. j \<noteq> sceneHelpers s \<longrightarrow> childrenOf s' j = childrenOf s j) \<and>
      (\<forall>j \<in> X. obj s' j = obj s j) \<and>
      set (childrenOf s' (sceneHelpers s)) \<subseteq> set (childrenOf s (sceneHelpers s)) \<and>
      (distinct (childrenOf s (sceneHelpers s)) \<longrightarrow> distinct (childrenOf s' (sceneHelpers s))) \<and>
      (\<forall>i. helpers s' i = None \<or> helpers s' i = helpers s i) \<and>
      (\<forall>k. set (dependents s' k) \<subseteq> set (dependents s k)) \<and>
      dom (fileDependencies s') = dom (fileDependencies s) \<and>
      (\<exists>evs. emitted s' = emitted s @ evs \<and> (\<forall>e \<in> set evs. isHelperRemoved e)) \<and>
      (\<forall>j. (obj s' j = None) = (obj s j = None)))"

text \<open>A light with a helper and a child that holds a scene reference to a.\<close>

definition fixture_light_scene :: editor where
  "fixture_light_scene =
     \<lparr>world = \<lparr>objects =
          [0 \<mapsto> fixture_object Scene None [3] None,
           1 \<mapsto> fixture_object Scene None [5] None,
           2 \<mapsto> fixture_object Camera None [] None,
           3 \<mapsto> fixture_object DirectionalLight (Some 0) [4] None,
           4 \<mapsto> fixture_object Object3D (Some 3) [] None,
           5 \<mapsto> fixture_object DirectionalLightHelper (Some 1) [] None],
        instances = [4 \<mapsto> \<lparr>comp_name = ''scene-reference'',
                              comp_props = Some [(''src'', ''a'')], shouldSave = True\<rparr>],
        nextId = 10, uuids = (\<lambda>n. ''u'')\<rparr>,
      scene = 0, sceneHelpers = 1, camera = 2,
      geometries = Map.empty, materials = Map.empty, textures = Map.empty,
      scripts = Map.empty, selected = None, helpers = [3 \<mapsto> 5],
      components = [''scene-reference'' \<mapsto> fixture_class ''scene-reference''],
      fileDependencies = [Some ''a'' \<mapsto> [4]],
      sceneGraphChanged_active = True, emitted = [], asyncCalls = [],
      history = \<lparr>commands = [], cursor = 0\<rparr>, storage = []\<rparr>"

text \<open>The part of the state outside the object store, the helper map, the dependency
  tracker and the trace of notifications.\<close>

definition unframed :: "editor \<Rightarrow> editor" where
  "unframed s = s\<lparr>world := (world s)\<lparr>objects := Map.empty\<rparr>, helpers := Map.empty,
                   fileDependencies := Map.empty, emitted := []\<rparr>"

text \<open>What removing children of the scene root, with their subtrees in \<open>X\<close>, may change
  between two states; \<open>R\<close> are the detached children.\<close>

definition detachFrame :: "nat set \<Rightarrow> nat set \<Rightarrow> editor \<Rightarrow> editor \<Rightarrow> bool" where
  "detachFrame X R s s' =
     (unframed s' = unframed s \<and>
      (\<forall>j. j \<noteq> sceneHelpers s \<and> j \<noteq> scene s \<longrightarrow> childrenOf s' j = childrenOf s j) \<and>
      (\<forall>j \<in> X. j \<notin> R \<longrightarrow> parentOf s' j = parentOf s j) \<and>
      (\<forall>j. (obj s' j = None) = (obj s j = None)) \<and>
      (\<forall>k. set (dependents s' k) \<subseteq> set (dependents s k)) \<and>
      dom (fileDependencies s') = dom (fileDependencies s) \<and>
      (\<exists>evs. emitted s' = emitted s @ evs \<and>
         (\<forall>e \<in> set evs. e \<noteq> SceneSet \<and>
            (e = SceneGraphChanged \<longrightarrow> sceneGraphChanged_active s))))"

text \<open>What any run of the editor's removal code keeps of the component registry and of
  the dependency tracker: the registry, the tracked resource ids, and no new dependents.\<close>

definition registryFrame :: "editor \<Rightarrow> editor \<Rightarrow> bool" where
  "registryFrame s s' =
     (components s' = components s \<and>
      dom (fileDependencies s') = dom (fileDependencies s) \<and>
      (\<forall>k. set (dependents s' k) \<subseteq> set (dependents s k)))"

text \<open>The children of the scene root unfold to the trees \<open>ts\<close>, which share no node and do
  not contain the root; each child points back to the root, which is not the overlay
  scene.\<close>

definition sceneTree :: "editor \<Rightarrow> tree list \<Rightarrow> bool" where
  "sceneTree st ts =
     (childrenOf st (scene st) = map root ts \<and>
      (\<forall>t \<in> set ts. shaped st t \<and> parentOf st (root t) = Some (scene st)) \<and>
      distinct (concat (map preorder ts)) \<and>
      scene st \<notin> set (concat (map preorder ts)) \<and>
      scene st \<noteq> sceneHelpers st)"

text \<open>The state in which clear starts to remove the children of the scene root.\<close>

definition clear_prelude :: "editor \<Rightarrow> editor" where
  "clear_prelude st =
     (let st1 = camera_copy_default (storage_clear (history_clear st))
      in setObjects (updObj (scene st1)
           (\<lambda>ob. ob\<lparr>background := Some 11184810, fog := None\<rparr>) (objects (world st1))) st1)"

text \<open>The light scene with a geometry, a material, a texture and a script registered. The
  tracker lists node 4 (which holds a scene reference to a) and the scene root 0 under a,
  and node 4 also under b.\<close>

definition fixture_light_scene_tables :: editor where
  "fixture_light_scene_tables = fixture_light_scene
     \<lparr>geometries := [''g1'' \<mapsto> \<lparr>geo_uuid = ''g1'', geo_name = ''box''\<rparr>],
      materials := [''m1'' \<mapsto> Material \<lparr>mat_uuid = ''m1'', mat_name = ''red''\<rparr>],
      textures := [''t1'' \<mapsto> ''wood''],
      scripts := [''u'' \<mapsto> [''spin'']],
      fileDependencies := [Some ''a'' \<mapsto> [4, 0], Some ''b'' \<mapsto> [4]]\<rparr>"

text \<open>The object store after addHelper has made a helper and its picker for the selection
  root \<open>r\<close>, with the kind \<open>hk\<close>, in the world \<open>w\<close> with the overlay scene \<open>sh\<close>.\<close>

definition helperStore :: "kind \<Rightarrow> nat \<Rightarrow> nat \<Rightarrow> world \<Rightarrow> (nat \<rightharpoonup> object3d)" where
  "helperStore hk r sh w =
     three_add sh (nextId w)
       (three_add (nextId w) (Suc (nextId w))
          (updObj (Suc (nextId w)) (\<lambda>pob. pob\<lparr>obj_name := ''picker'',
                            obj_geometry := Some picker_geometry,
                            obj_material := Some picker_material,
                            userData := (userData pob)\<lparr>ud_selectionRoot := Some r\<rparr>\<rparr>)
             (objects (snd (newObject Mesh (snd (newObject hk w)))))))"

definition isHelperAdded :: "event \<Rightarrow> bool" where
  "isHelperAdded e = (case e of HelperAdded h \<Rightarrow> True | _ \<Rightarrow> False)"

text \<open>The part of the state that adding objects does not touch.\<close>

definition unframedAdd :: "editor \<Rightarrow> editor" where
  "unframedAdd s = s\<lparr>world := (world s)\<lparr>objects := Map.empty, nextId := 0\<rparr>,
                      helpers := Map.empty, geometries := Map.empty, materials := Map.empty,
                      emitted := []\<rparr>"

text \<open>What the traversal of addObject with the selection root \<open>r\<close> may change between two
  states: objects made earlier keep their parent and, the overlay scene apart, are
  untouched; the tables only grow; only the helper entry of \<open>r\<close> may change, to a helper
  made in between, which sits in the overlay scene.\<close>

definition addFrame :: "nat \<Rightarrow> editor \<Rightarrow> editor \<Rightarrow> bool" where
  "addFrame r s s' =
     (unframedAdd s' = unframedAdd s \<and>
      nextId (world s) \<le> nextId (world s') \<and>
      (\<forall>j. j < nextId (world s) \<and> j \<noteq> sceneHelpers s \<longrightarrow> obj s' j = obj s j) \<and>
      (\<forall>j. j < nextId (world s) \<longrightarrow> parentOf s' j = parentOf s j) \<and>
      (\<forall>j. obj s j \<noteq> None \<longrightarrow> obj s' j \<noteq> None) \<and>
      dom (geometries s) \<subseteq> dom (geometries s') \<and>
      dom (materials s) \<subseteq> dom (materials s') \<and>
      (\<forall>i. i \<noteq> r \<longrightarrow> helpers s' i = helpers s i) \<and>
      (helpers s' r = helpers s r \<or>
       (\<exists>h. helpers s' r = Some h \<and> nextId (world s) \<le> h \<and> h < nextId (world s') \<and>
            (sceneHelpers s < nextId (world s) \<longrightarrow> parentOf s' h = Some (sceneHelpers s)))) \<and>
      (\<exists>evs. emitted s' = emitted s @ evs \<and> (\<forall>e \<in> set evs. isHelperAdded e)))"

text \<open>The state after the callback of addObject has registered the geometry and the
  material of an object.\<close>

definition registerResources :: "object3d \<Rightarrow> editor \<Rightarrow> editor" where
  "registerResources ob st =
     (let st1 = (case obj_geometry ob of None \<Rightarrow> st | Some g \<Rightarrow> addGeometry g st)
      in (case obj_material ob of None \<Rightarrow> st1 | Some m \<Rightarrow> addMaterial m st1))"

text \<open>A group, node 3, with two directional lights, 4 and 5, not yet in the scene.\<close>

definition fixture_two_lights :: editor where
  "fixture_two_lights = fixture_editor
     [0 \<mapsto> fixture_object Scene None [] None,
      1 \<mapsto> fixture_object Scene None [] None,
      2 \<mapsto> fixture_object Camera None [] None,
      3 \<mapsto> fixture_object Object3D None [4, 5] None,
      4 \<mapsto> fixture_object DirectionalLight (Some 3) [] None,
      5 \<mapsto> fixture_object DirectionalLight (Some 3) [] None]"






text \<open>The run ended with a result, not with an exception and not without an end.\<close>

definition returned :: "editor outcome option \<Rightarrow> bool" where
  "returned r = (case r of Some (Return s) \<Rightarrow> True | _ \<Rightarrow> False)"

text \<open>A node holds a scene reference to the resource id \<open>k\<close>: reading its
  scene-reference component gives a component whose \<open>src\<close> is \<open>k\<close>.\<close>

definition holdsReference :: "editor \<Rightarrow> nat \<Rightarrow> string option \<Rightarrow> bool" where
  "holdsReference s j k =
     (case getComponent s j SceneReferenceComponent_componentName of
        Inr (Some c) \<Rightarrow> getProperty c ''src'' = k
      | _ \<Rightarrow> False)"

text \<open>Between two states the tracker lost exactly the dependents that are nodes of \<open>N\<close>
  and held a scene reference to the resource id they were listed under.\<close>

definition releasedExactly :: "nat set \<Rightarrow> editor \<Rightarrow> editor \<Rightarrow> bool" where
  "releasedExactly N s s' =
     (\<forall>k j. (j \<in> set (dependents s' k)) =
        (j \<in> set (dependents s k) \<and> \<not> (j \<in> N \<and> holdsReference s j k)))"

text \<open>The light scene while the "graph changed" channel is suppressed.\<close>

definition fixture_light_scene_suppressed :: editor where
  "fixture_light_scene_suppressed = fixture_light_scene\<lparr>sceneGraphChanged_active := False\<rparr>"

text \<open>The children of the scene \<open>source\<close>, which is to be set, unfold to the trees \<open>ts\<close>,
  which share no node; each child points back to \<open>source\<close>. The nodes, \<open>source\<close> and the
  scene root are existing objects made before, and they are different from each other and
  from the overlay scene.\<close>

definition sourceTree :: "nat \<Rightarrow> editor \<Rightarrow> tree list \<Rightarrow> bool" where
  "sourceTree source st ts =
     (childrenOf st source = map root ts \<and>
      (\<forall>t \<in> set ts. shaped st t \<and> parentOf st (root t) = Some source) \<and>
      (\<forall>i \<in> set (concat (map preorder ts)).
          i < nextId (world st) \<and> i \<noteq> sceneHelpers st \<and> obj st i \<noteq> None) \<and>
      distinct (concat (map preorder ts)) \<and>
      source \<notin> set (concat (map preorder ts)) \<and>
      scene st \<notin> set (concat (map preorder ts)) \<and>
      source \<noteq> scene st \<and> source \<noteq> sceneHelpers st \<and> scene st \<noteq> sceneHelpers st \<and>
      source < nextId (world st) \<and> scene st < nextId (world st) \<and>
      obj st source \<noteq> None \<and> obj st (scene st) \<noteq> None)"

text \<open>The state in which setScene starts to remove the children of the scene root: the
  scene root has taken over uuid, name, background, fog and a copy of the user data of
  \<open>source\<close>, and the "graph changed" channel is suppressed.\<close>

definition setScene_prelude :: "nat \<Rightarrow> editor \<Rightarrow> editor" where
  "setScene_prelude source st =
     (case obj st source of
        None \<Rightarrow> st
      | Some src \<Rightarrow>
          (setObjects (updObj (scene st) (\<lambda>ob. ob\<lparr>
              uuid := uuid src, obj_name := obj_name src,
              background := (if background src \<noteq> None then background src else background ob),
              fog := (if fog src \<noteq> None then fog src else fog ob),
              userData := json_copy (userData src)\<rparr>) (objects (world st))) st)
          \<lparr>sceneGraphChanged_active := False\<rparr>)"

text \<open>What setting the scene \<open>source\<close> relies on: the children of the scene root unfold to
  the trees \<open>live\<close> and those of \<open>source\<close> to the trees \<open>ts\<close>; the two share no node and
  \<open>source\<close> is not below the scene root; the nodes were made before; the helpers of all
  these nodes are in place; the scene-reference type is registered.\<close>

definition settable :: "nat \<Rightarrow> editor \<Rightarrow> tree list \<Rightarrow> tree list \<Rightarrow> bool" where
  "settable source st live ts =
     (sceneTree st live \<and> sourceTree source st ts \<and>
      helpersIn (set (concat (map preorder live)) \<union> set (concat (map preorder ts)) \<union> {source}) st \<and>
      set (concat (map preorder live)) \<inter> set (concat (map preorder ts)) = {} \<and>
      source \<notin> set (concat (map preorder live)) \<and>
      (\<forall>i \<in> set (concat (map preorder live)). i < nextId (world st)) \<and>
      components st SceneReferenceComponent_componentName \<noteq> None)"

text \<open>A scene with a light 3 (and its helper 5), and a scene 6 to be set, with a mesh 7
  that has a child 8.\<close>

definition fixture_set_scene :: editor where
  "fixture_set_scene =
     \<lparr>world = \<lparr>objects =
          [0 \<mapsto> fixture_object Scene None [3] None,
           1 \<mapsto> fixture_object Scene None [5] None,
           2 \<mapsto> fixture_object Camera None [] None,
           3 \<mapsto> fixture_object DirectionalLight (Some 0) [] None,
           5 \<mapsto> fixture_object DirectionalLightHelper (Some 1) [] None,
           6 \<mapsto> fixture_object Scene None [7] None,
           7 \<mapsto> fixture_object Mesh (Some 6) [8] None,
           8 \<mapsto> fixture_object Object3D (Some 7) [] None],
        instances = Map.empty, nextId = 10, uuids = (\<lambda>n. ''u'')\<rparr>,
      scene = 0, sceneHelpers = 1, camera = 2,
      geometries = Map.empty, materials = Map.empty, textures = Map.empty,
      scripts = Map.empty, selected = None, helpers = [3 \<mapsto> 5],
      components = [''scene-reference'' \<mapsto> fixture_class ''scene-reference''],
      fileDependencies = Map.empty,
      sceneGraphChanged_active = True, emitted = [], asyncCalls = [],
      history = \<lparr>commands = [], cursor = 0\<rparr>, storage = []\<rparr>"

section \<open>Properties\<close>

subsection \<open>Component registry\<close>

text \<open>
  Claim C7. For a component class whose type name is already in the registry,
  registerComponent raises an error and leaves the editor state, hence the registry and
  the first registration, as it was; for a type name that is not yet in the registry it
  adds the mapping and raises nothing.
\<close>

theorem registerComponent_duplicate:
  "(componentName cls \<in> dom (components st) \<longrightarrow>
      registerComponent cls st = Throw (AlreadyRegistered (componentName cls)) st) \<and>
   (componentName cls \<notin> dom (components st) \<longrightarrow>
      registerComponent cls st =
        Return (st\<lparr>components := (components st)(componentName cls \<mapsto> cls)\<rparr>))"
  by (simp add: registerComponent_def)

theorem registerComponent_duplicate_witness:
  "registerComponent (fixture_class ''light'')
      ((fixture_editor Map.empty)\<lparr>components := [''light'' \<mapsto> fixture_class ''light'']\<rparr>)
     = Throw (AlreadyRegistered ''light'')
         ((fixture_editor Map.empty)\<lparr>components := [''light'' \<mapsto> fixture_class ''light'']\<rparr>) \<and>
   registerComponent (fixture_class ''light'') (fixture_editor Map.empty)
     = Return ((fixture_editor Map.empty)\<lparr>components :=
          (components (fixture_editor Map.empty))(''light'' \<mapsto> fixture_class ''light'')\<rparr>)"
  using registerComponent_duplicate
          [of "fixture_class ''light''"
              "(fixture_editor Map.empty)\<lparr>components := [''light'' \<mapsto> fixture_class ''light'']\<rparr>"]
        registerComponent_duplicate [of "fixture_class ''light''" "fixture_editor Map.empty"]
  by (simp add: fixture_class_def fixture_editor_def)

text \<open>
  Claim C9. On a node whose generic component list was never created, reading a
  component of an unregistered type fails with a TypeError instead of returning
  "absent".
\<close>

theorem getComponent_generic_absent_list:
  assumes "components st T = None" and "obj st node = Some ob"
    and "ud_components (userData ob) = None"
  shows "getComponent st node T = Inl TypeError"
  using assms by (simp add: getComponent_def)

theorem getComponent_generic_absent_list_witness:
  "components (fixture_editor [3 \<mapsto> fixture_object Mesh None [] None]) ''tag'' = None \<and>
   obj (fixture_editor [3 \<mapsto> fixture_object Mesh None [] None]) 3
     = Some (fixture_object Mesh None [] None) \<and>
   ud_components (userData (fixture_object Mesh None [] None)) = None \<and>
   getComponent (fixture_editor [3 \<mapsto> fixture_object Mesh None [] None]) 3 ''tag''
     = Inl TypeError"
proof -
  let ?st = "fixture_editor [3 \<mapsto> fixture_object Mesh None [] None]"
  have a: "components ?st ''tag'' = None" by (simp add: fixture_editor_def)
  have b: "obj ?st 3 = Some (fixture_object Mesh None [] None)"
    by (simp add: fixture_editor_def obj_def)
  have c: "ud_components (userData (fixture_object Mesh None [] None)) = None"
    by (simp add: fixture_object_def fixture_userData_def)
  show ?thesis using a b c getComponent_generic_absent_list [OF a b c] by simp
qed

text \<open>Without a match \<open>findIndex\<close> is -1, and \<open>splice(-1, 1)\<close> drops the last entry.\<close>

lemma findIndex_ge_minus1: "- 1 \<le> findIndex P xs"
  by (induction xs) (auto simp: Let_def)

lemma findIndex_no_match: "(\<forall>x \<in> set xs. \<not> P x) \<Longrightarrow> findIndex P xs = - 1"
  by (induction xs) (auto simp: Let_def)

lemma splice1_minus1: "splice1 (- 1) xs = butlast xs"
proof (cases xs rule: rev_cases)
  case Nil
  then show ?thesis by (simp add: splice1_def)
next
  case (snoc ys y)
  then show ?thesis by (simp add: splice1_def Let_def)
qed

lemma removeComponent_generic_no_match:
  assumes "components st T = None" and "obj st node = Some ob"
    and "ud_components (userData ob) = Some cs"
    and "\<forall>c \<in> set cs. comp_name c \<noteq> T"
  shows "genericComponents (stateOf (removeComponent node T st)) node = Some (butlast cs)"
  using assms
  by (simp add: removeComponent_def genericComponents_def obj_def setObjects_def
        findIndex_no_match splice1_minus1)

text \<open>
  Claim C3 fails on the code: when the generic component list of a node exists and
  holds no entry named T, removeComponent(node, T) does not leave the list unchanged.
  Here the list holds the single entry named a, and removing the unregistered and absent
  name b empties it.
\<close>

theorem removeComponent_no_match_drops_last:
  "genericComponents (fixture_editor [3 \<mapsto> fixture_object Mesh None [] (Some [fixture_component ''a''])]) 3
     = Some [fixture_component ''a''] \<and>
   genericComponents
     (stateOf (removeComponent 3 ''b''
        (fixture_editor [3 \<mapsto> fixture_object Mesh None [] (Some [fixture_component ''a''])]))) 3
     = Some []"
  by (simp add: genericComponents_def fixture_editor_def fixture_object_def fixture_userData_def
        fixture_component_def obj_def removeComponent_def setObjects_def splice1_def)

subsection \<open>Duplicate\<close>

lemma addComponent_generic:
  assumes "components st n = None" and "obj st object = Some ob"
  shows "addComponent object n ps sk st =
     Return (\<lparr>comp_name = n, comp_props = ps, shouldSave = \<not> sk\<rparr>,
       setObjects ((objects (world st))(object \<mapsto>
          ob\<lparr>userData := (userData ob)\<lparr>ud_components :=
            Some ((case ud_components (userData ob) of None \<Rightarrow> [] | Some cs \<Rightarrow> cs)
                   @ [\<lparr>comp_name = n, comp_props = ps, shouldSave = \<not> sk\<rparr>])\<rparr>\<rparr>)) st)"
  using assms by (simp add: addComponent_def Let_def)

lemma allGeneric_step:
  assumes "allGeneric st clone i" and "genericComponents st clone = Some cs"
  shows "\<exists>c st1. addComponent clone (comp_name (cs ! i)) (comp_props (cs ! i)) False st = Return (c, st1)
            \<and> allGeneric st1 clone (Suc i)"
proof -
  from assms have i: "i < length cs" and un: "\<forall>c \<in> set cs. components st (comp_name c) = None"
    by (auto simp: allGeneric_def)
  from assms(2) obtain ob where ob: "obj st clone = Some ob" "ud_components (userData ob) = Some cs"
    by (auto simp: genericComponents_def split: option.splits)
  from i un have n: "components st (comp_name (cs ! i)) = None" by simp
  show ?thesis
    using i un n ob
    by (simp add: addComponent_generic [OF n ob(1)] allGeneric_def genericComponents_def
          obj_def setObjects_def)
qed

lemma inflateLoop_diverges_aux:
  assumes "inflateLoop clone i st = Some y"
  shows "\<not> allGeneric st clone i"
proof (rule inflateLoop.raw_induct [where P = "\<lambda>clone i st y. \<not> allGeneric st clone i", OF _ assms],
    goal_cases)
  case (1 f clone i st y)
  show ?case
  proof
    assume a: "allGeneric st clone i"
    then obtain cs where cs: "genericComponents st clone = Some cs" and i: "i < length cs"
      by (auto simp: allGeneric_def split: option.splits)
    from allGeneric_step [OF a cs] obtain c st1 where
      s: "addComponent clone (comp_name (cs ! i)) (comp_props (cs ! i)) False st = Return (c, st1)"
      and a1: "allGeneric st1 clone (Suc i)" by blast
    from 1(2) cs i s have rec: "f clone (Suc i) st1 = Some y" by simp
    from 1(1) [OF rec] a1 show False by simp
  qed
qed

lemma inflateLoop_diverges: "allGeneric st clone i \<Longrightarrow> inflateLoop clone i st = None"
  using inflateLoop_diverges_aux by (cases "inflateLoop clone i st") auto


lemma clone_object_components:
  assumes "obj st z = Some ob"
  shows "\<exists>st1. clone_object z st = Some (nextId (world st), st1)
           \<and> genericComponents st1 (nextId (world st)) = ud_components (userData ob)
           \<and> components st1 = components st"
  using assms
  by (simp add: clone_object_def newObject_def Let_def updObj_def genericComponents_def obj_def
        json_copy_def)

lemma duplicateObject_generic_diverges:
  assumes ob: "obj st z = Some ob"
    and cs: "ud_components (userData ob) = Some cs" "cs \<noteq> []"
    and un: "\<forall>c \<in> set cs. components st (comp_name c) = None"
  shows "duplicateObject z st = None"
proof -
  from clone_object_components [OF ob] cs obtain st1 where
    c: "clone_object z st = Some (nextId (world st), st1)"
    and g: "genericComponents st1 (nextId (world st)) = Some cs"
    and r: "components st1 = components st" by auto
  from g r cs un have "allGeneric st1 (nextId (world st)) 0" by (simp add: allGeneric_def)
  then have "inflateLoop (nextId (world st)) 0 st1 = None" by (rule inflateLoop_diverges)
  with c g show ?thesis
    by (simp add: duplicateObject_def cloneAndInflate_def cloneRec.simps [of "CloneAndInflate z None"])
qed

text \<open>
  Claim C1 fails on the code: for a node that carries two generic components,
  duplicateObject does not terminate. The loop of _cloneAndInflate over the clone's
  component list calls addComponent, whose generic path appends to the very list the
  loop runs over, so the end of the list is never reached.
\<close>

theorem duplicateObject_two_generic_diverges:
  "genericComponents fixture_two_generic 3 = Some [fixture_component ''a'', fixture_component ''b''] \<and>
   components fixture_two_generic ''a'' = None \<and> components fixture_two_generic ''b'' = None \<and>
   duplicateObject 3 fixture_two_generic = None"
proof -
  have ob: "obj fixture_two_generic 3 = Some (fixture_object Mesh (Some 0) []
             (Some [fixture_component ''a'', fixture_component ''b'']))"
    by (simp add: fixture_two_generic_def fixture_editor_def obj_def)
  have cs: "ud_components (userData (fixture_object Mesh (Some 0) []
             (Some [fixture_component ''a'', fixture_component ''b''])))
            = Some [fixture_component ''a'', fixture_component ''b'']"
    by (simp add: fixture_object_def fixture_userData_def)
  have un: "\<forall>c \<in> set [fixture_component ''a'', fixture_component ''b''].
              components fixture_two_generic (comp_name c) = None"
    by (simp add: fixture_two_generic_def fixture_editor_def)
  have "duplicateObject 3 fixture_two_generic = None"
    by (rule duplicateObject_generic_diverges [OF ob cs _ un]) simp
  with ob cs un show ?thesis
    by (simp add: genericComponents_def fixture_component_def)
qed

subsection \<open>Dependency tracker\<close>

lemma getComponent_cong:
  "world st' = world st \<Longrightarrow> components st' = components st \<Longrightarrow> getComponent st' = getComponent st"
  by (intro ext) (simp add: getComponent_def obj_def split: option.splits)

lemma getComponent_registered:
  "components st n = Some cls \<Longrightarrow> \<exists>r. getComponent st d n = Inr r"
  by (simp add: getComponent_def)

lemma removeSceneRefDependency_frame:
  "world (stateOf (removeSceneRefDependency d st)) = world st \<and>
   components (stateOf (removeSceneRefDependency d st)) = components st \<and>
   asyncCalls (stateOf (removeSceneRefDependency d st)) = asyncCalls st"
  by (simp add: removeSceneRefDependency_def split: sum.splits option.splits)

lemma removeSceneRefDependency_others:
  "e \<noteq> d \<Longrightarrow>
   e \<in> set (case fileDependencies st k of None \<Rightarrow> [] | Some ds \<Rightarrow> ds) \<Longrightarrow>
   e \<in> set (case fileDependencies (stateOf (removeSceneRefDependency d st)) k of
              None \<Rightarrow> [] | Some ds \<Rightarrow> ds)"
  by (auto simp: removeSceneRefDependency_def split: sum.splits option.splits)

lemma loadSceneReference_frame:
  "world (loadSceneReference url d st) = world st \<and>
   components (loadSceneReference url d st) = components st \<and>
   asyncCalls (loadSceneReference url d st) = asyncCalls st @ [LoadSceneReference url d]"
  by (simp add: loadSceneReference_def removeSceneRefDependency_frame)

lemma loadSceneReference_others:
  assumes "e \<noteq> d"
    and "e \<in> set (case fileDependencies st k of None \<Rightarrow> [] | Some ds \<Rightarrow> ds)"
  shows "e \<in> set (case fileDependencies (loadSceneReference url d st) k of
              None \<Rightarrow> [] | Some ds \<Rightarrow> ds)"
  unfolding loadSceneReference_def
  by (rule removeSceneRefDependency_others [OF assms(1)]) (use assms(2) in simp)

lemma reaction_cong:
  assumes "world st' = world st" and "components st' = components st"
  shows "reaction st' = reaction st"
  by (intro ext) (simp add: reaction_def carriesSceneReference_def getComponent_cong [OF assms])

lemma onFileChanged_loop_calls:
  assumes "distinct ds"
    and "set ds \<subseteq> set (case fileDependencies st (Some url) of None \<Rightarrow> [] | Some xs \<Rightarrow> xs)"
    and "\<forall>d \<in> set ds. \<exists>r. getComponent st d SceneReferenceComponent_componentName = Inr r"
  shows "\<exists>st'. onFileChanged_loop url ds st = Return st'
           \<and> asyncCalls st' = asyncCalls st @ map (reaction st url) ds"
  using assms
proof (induction ds arbitrary: st)
  case Nil
  then show ?case by simp
next
  case (Cons d ds)
  let ?SR = SceneReferenceComponent_componentName
  from Cons.prems obtain r where r: "getComponent st d ?SR = Inr r" by auto
  let ?st1 = "if r = None then reloadScene st else loadSceneReference url d st"
  have w: "world ?st1 = world st" and c: "components ?st1 = components st"
    and a: "asyncCalls ?st1 = asyncCalls st @ [reaction st url d]"
    using r by (auto simp: loadSceneReference_frame reloadScene_def reaction_def
        carriesSceneReference_def split: option.splits)
  have live: "set ds \<subseteq> set (case fileDependencies ?st1 (Some url) of None \<Rightarrow> [] | Some xs \<Rightarrow> xs)"
  proof
    fix e assume e: "e \<in> set ds"
    with Cons.prems have ne: "e \<noteq> d"
      and m: "e \<in> set (case fileDependencies st (Some url) of None \<Rightarrow> [] | Some xs \<Rightarrow> xs)"
      by auto
    show "e \<in> set (case fileDependencies ?st1 (Some url) of None \<Rightarrow> [] | Some xs \<Rightarrow> xs)"
      using loadSceneReference_others [OF ne m] m by (simp add: reloadScene_def)
  qed
  have reads: "\<forall>d \<in> set ds. \<exists>r. getComponent ?st1 d ?SR = Inr r"
    using Cons.prems(3) getComponent_cong [OF w c] by simp
  from Cons.prems(1) have dist: "distinct ds" by simp
  from Cons.IH [OF dist live reads] obtain st' where
    l: "onFileChanged_loop url ds ?st1 = Return st'"
    and ac: "asyncCalls st' = asyncCalls ?st1 @ map (reaction ?st1 url) ds" by blast
  have step: "onFileChanged_loop url (d # ds) st = onFileChanged_loop url ds ?st1"
    using Cons.prems(2) r by (auto split: option.splits)
  show ?case
    using l ac a reaction_cong [OF w c] by (simp only: step) simp
qed

text \<open>
  Claim C2, amended. A "resource changed" notification for an id without a tracker
  entry changes nothing and raises nothing. For an id with the dependents \<open>ds\<close>, whose
  scene-reference components can be read, the notification starts, for each dependent in
  order, loadSceneReference(U, node) when the node carries a scene-reference component,
  whatever its \<open>src\<close>, and reloadScene otherwise.
\<close>

theorem onFileChanged_reactions:
  "(fileDependencies st (Some U) = None \<longrightarrow> onFileChanged U st = Return st) \<and>
   (\<forall>ds. fileDependencies st (Some U) = Some ds \<and> distinct ds \<and>
          (\<forall>d \<in> set ds. \<exists>r. getComponent st d SceneReferenceComponent_componentName = Inr r) \<longrightarrow>
      (\<exists>st'. onFileChanged U st = Return st' \<and>
             asyncCalls st' = asyncCalls st @ map (reaction st U) ds))"
proof (intro conjI allI impI)
  assume "fileDependencies st (Some U) = None"
  then show "onFileChanged U st = Return st" by (simp add: onFileChanged_def)
next
  fix ds
  assume h: "fileDependencies st (Some U) = Some ds \<and> distinct ds \<and>
          (\<forall>d \<in> set ds. \<exists>r. getComponent st d SceneReferenceComponent_componentName = Inr r)"
  then have "\<exists>st'. onFileChanged_loop U ds st = Return st'
           \<and> asyncCalls st' = asyncCalls st @ map (reaction st U) ds"
    by (intro onFileChanged_loop_calls) simp_all
  with h show "\<exists>st'. onFileChanged U st = Return st' \<and>
             asyncCalls st' = asyncCalls st @ map (reaction st U) ds"
    by (simp add: onFileChanged_def)
qed

lemma fixture_stale_reference_reads:
  "getComponent fixture_stale_reference 3 SceneReferenceComponent_componentName
     = Inr (Some \<lparr>comp_name = ''scene-reference'', comp_props = Some [(''src'', ''b'')],
                  shouldSave = True\<rparr>)"
  "getComponent fixture_stale_reference 0 SceneReferenceComponent_componentName = Inr None"
  by (simp_all add: fixture_stale_reference_def fixture_editor_def fixture_class_def
        getComponent_def SceneReferenceComponent_componentName_def)

theorem onFileChanged_reactions_witness:
  "fileDependencies fixture_stale_reference (Some ''c'') = None \<and>
   onFileChanged ''c'' fixture_stale_reference = Return fixture_stale_reference \<and>
   fileDependencies fixture_stale_reference (Some ''a'') = Some [3, 0] \<and>
   (\<exists>st'. onFileChanged ''a'' fixture_stale_reference = Return st' \<and>
          asyncCalls st' = [LoadSceneReference ''a'' 3, ReloadScene])"
proof -
  have n: "fileDependencies fixture_stale_reference (Some ''c'') = None"
    and d: "fileDependencies fixture_stale_reference (Some ''a'') = Some [3, 0]"
    and a: "asyncCalls fixture_stale_reference = []"
    by (simp_all add: fixture_stale_reference_def fixture_editor_def)
  have h: "fileDependencies fixture_stale_reference (Some ''a'') = Some [3, 0] \<and> distinct [3, 0 :: nat] \<and>
      (\<forall>d \<in> set [3, 0]. \<exists>r. getComponent fixture_stale_reference d
          SceneReferenceComponent_componentName = Inr r)"
    using d by (simp add: fixture_stale_reference_reads)
  have r: "reaction fixture_stale_reference ''a'' 3 = LoadSceneReference ''a'' 3"
    "reaction fixture_stale_reference ''a'' 0 = ReloadScene"
    by (simp_all add: reaction_def carriesSceneReference_def fixture_stale_reference_reads)
  from onFileChanged_reactions [of fixture_stale_reference "''c''"] n
  have 1: "onFileChanged ''c'' fixture_stale_reference = Return fixture_stale_reference" by simp
  from onFileChanged_reactions [of fixture_stale_reference "''a''"] h
  have 2: "\<exists>st'. onFileChanged ''a'' fixture_stale_reference = Return st' \<and>
          asyncCalls st' = asyncCalls fixture_stale_reference
             @ map (reaction fixture_stale_reference ''a'') [3, 0]" by blast
  from n d 1 2 show ?thesis by (simp add: a r)
qed

text \<open>
  Claim C2 as stated fails: node 3 is a dependent of a and carries a scene-reference
  component whose \<open>src\<close> is b, so the claim asks for a full scene reload, but the code
  starts loadSceneReference(a, 3).
\<close>

theorem onFileChanged_ignores_src:
  "fileDependencies fixture_stale_reference (Some ''a'') = Some [3, 0] \<and>
   spec_reaction fixture_stale_reference ''a'' 3 = ReloadScene \<and>
   asyncCalls (stateOf (onFileChanged ''a'' fixture_stale_reference))
     = [LoadSceneReference ''a'' 3, ReloadScene]"
proof -
  have d: "fileDependencies fixture_stale_reference (Some ''a'') = Some [3, 0]"
    and a: "asyncCalls fixture_stale_reference = []"
    by (simp_all add: fixture_stale_reference_def fixture_editor_def)
  have s: "spec_reaction fixture_stale_reference ''a'' 3 = ReloadScene"
    by (simp add: spec_reaction_def fixture_stale_reference_reads getProperty_def)
  have r: "reaction fixture_stale_reference ''a'' 3 = LoadSceneReference ''a'' 3"
    "reaction fixture_stale_reference ''a'' 0 = ReloadScene"
    by (simp_all add: reaction_def carriesSceneReference_def fixture_stale_reference_reads)
  have "\<exists>st'. onFileChanged_loop ''a'' [3, 0] fixture_stale_reference = Return st'
           \<and> asyncCalls st' = asyncCalls fixture_stale_reference
                @ map (reaction fixture_stale_reference ''a'') [3, 0]"
    by (rule onFileChanged_loop_calls) (simp_all add: d fixture_stale_reference_reads)
  then obtain st' where l: "onFileChanged_loop ''a'' [3, 0] fixture_stale_reference = Return st'"
    and c: "asyncCalls st' = [LoadSceneReference ''a'' 3, ReloadScene]"
    by (auto simp only: a r list.map append_Nil)
  have "onFileChanged ''a'' fixture_stale_reference = Return st'"
    by (simp only: onFileChanged_def d option.case l)
  with c have "asyncCalls (stateOf (onFileChanged ''a'' fixture_stale_reference))
     = [LoadSceneReference ''a'' 3, ReloadScene]" by simp
  with d s show ?thesis by simp
qed

subsection \<open>Traversal of a subtree\<close>

lemma andThen_simps [simp]:
  "andThen (Return s) f = f s"
  "andThen (Throw e s) f = Throw e s"
  by (simp_all add: andThen_def)

lemma run_append: "run cb (xs @ ys) st = andThen (run cb xs st) (run cb ys)"
proof (induction xs arbitrary: st)
  case Nil
  show ?case by simp
next
  case (Cons x xs)
  show ?case by (cases "cb x st") (simp_all add: Cons.IH)
qed

lemma root_in_preorder: "root t \<in> set (preorder t)"
  by (cases t) simp

lemma shaped_cong:
  "(\<And>j. j \<in> set (preorder t) \<Longrightarrow> childrenOf s' j = childrenOf s j) \<Longrightarrow> shaped s' t = shaped s t"
proof (induction t)
  case (Tree i ts)
  have "shaped s' u = shaped s u" if "u \<in> set ts" for u
    using that Tree.prems by (intro Tree.IH) auto
  with Tree.prems [of i] show ?case by simp
qed

text \<open>A callback that keeps an invariant and the children sequences of the nodes in
  \<open>S\<close>: the same holds of a run of it.\<close>

lemma run_invariant:
  assumes step: "\<And>i s s'. Inv s \<Longrightarrow> i \<in> S \<Longrightarrow> cb i s = Return s' \<Longrightarrow> Inv s'"
    and "Inv st" and "set xs \<subseteq> S" and "run cb xs st = Return st'"
  shows "Inv st'"
  using assms(2-)
proof (induction xs arbitrary: st)
  case Nil
  then show ?case by simp
next
  case (Cons x xs)
  then obtain s1 where s1: "cb x st = Return s1" and r: "run cb xs s1 = Return st'"
    by (cases "cb x st") auto
  from step [OF Cons.prems(1) _ s1] Cons.prems(2) have "Inv s1" by simp
  from Cons.IH [OF this _ r] Cons.prems(2) show ?case by simp
qed

lemma traverseLoop_run:
  assumes step: "\<And>i s s'. Inv s \<Longrightarrow> i \<in> S \<Longrightarrow> cb i s = Return s' \<Longrightarrow>
                   Inv s' \<and> (\<forall>j \<in> S. childrenOf s' j = childrenOf s j)"
    and sub: "\<And>t s. t \<in> set ts \<Longrightarrow> Inv s \<Longrightarrow> shaped s t \<Longrightarrow>
                   traverse cb (root t) s = Some (run cb (preorder t) s)"
    and ids: "\<forall>t \<in> set ts. set (preorder t) \<subseteq> S" and i: "i \<in> S"
  shows "Inv st \<Longrightarrow> childrenOf st i = map root ts \<Longrightarrow> \<forall>t \<in> set ts. shaped st t \<Longrightarrow>
         k \<le> length ts \<Longrightarrow>
         traverseLoop cb i k (length ts) st = Some (run cb (concat (map preorder (drop k ts))) st)"
proof (induction "length ts - k" arbitrary: k st)
  case 0
  then have "k = length ts" by simp
  then show ?case by (simp add: traverseLoop.simps [of cb i "length ts"])
next
  case (Suc n)
  then have k: "k < length ts" by simp
  let ?t = "ts ! k"
  let ?c = "root ?t"
  let ?rest = "concat (map preorder (drop (Suc k) ts))"
  have tin: "?t \<in> set ts" using k by simp
  have dr: "drop k ts = ?t # drop (Suc k) ts" using k by (simp add: Cons_nth_drop_Suc)
  have ck: "childrenOf st i ! k = ?c" using Suc.prems(2) k by simp
  have li: "k < length (childrenOf st i)" using Suc.prems(2) k by simp
  have pt: "preorder ?t = ?c # concat (map preorder (case ?t of Tree _ us \<Rightarrow> us))"
    by (cases ?t) simp
  have inS: "set (preorder ?t) \<subseteq> S" using ids tin by blast
  have inv_frame: "Inv s' \<and> (\<forall>j \<in> S. childrenOf s' j = childrenOf s j)"
    if "Inv s" "set xs \<subseteq> S" "run cb xs s = Return s'" for xs s s'
  proof -
    have "Inv s' \<and> (\<forall>j \<in> S. childrenOf s' j = childrenOf s j)"
      by (rule run_invariant [where Inv = "\<lambda>u. Inv u \<and> (\<forall>j \<in> S. childrenOf u j = childrenOf s j)"
            and S = S and cb = cb and st = s and xs = xs])
        (use step that in auto)
    then show ?thesis .
  qed
  have tr: "traverse cb ?c st = Some (run cb (preorder ?t) st)"
    using sub [OF tin Suc.prems(1)] Suc.prems(3) tin by blast
  show ?case
  proof (cases "cb ?c st")
    case (Throw e s)
    then show ?thesis
      using k li ck dr pt by (simp add: traverseLoop.simps [of cb i k] run_append)
  next
    case (Return st1)
    from tr Return have tl: "traverseLoop cb ?c 0 (length (childrenOf st1 ?c)) st1
        = Some (run cb (preorder ?t) st)"
      by (simp add: traverse_def)
    show ?thesis
    proof (cases "run cb (preorder ?t) st")
      case (Throw e s)
      then show ?thesis
        using k li ck dr Return tl
        by (simp add: traverseLoop.simps [of cb i k] run_append)
    next
      case (Return st2)
      note r2 = this
      from inv_frame [OF Suc.prems(1) inS r2]
      have inv2: "Inv st2" and fr: "\<forall>j \<in> S. childrenOf st2 j = childrenOf st j" by auto
      have ch2: "childrenOf st2 i = map root ts" using fr i Suc.prems(2) by simp
      have sh2: "\<forall>t \<in> set ts. shaped st2 t"
      proof
        fix t assume t: "t \<in> set ts"
        have "shaped st2 t = shaped st t"
          by (rule shaped_cong) (use fr ids t in blast)
        with Suc.prems(3) t show "shaped st2 t" by simp
      qed
      have n: "n = length ts - Suc k" using Suc.hyps(2) by simp
      have "traverseLoop cb i (Suc k) (length ts) st2 = Some (run cb ?rest st2)"
        by (rule Suc.hyps(1) [OF n inv2 ch2 sh2]) (use k in simp)
      then show ?thesis
        using k li ck dr \<open>cb ?c st = Return st1\<close> tl r2
        by (simp add: traverseLoop.simps [of cb i k] run_append)
    qed
  qed
qed

lemma traverse_run:
  assumes step: "\<And>i s s'. Inv s \<Longrightarrow> i \<in> S \<Longrightarrow> cb i s = Return s' \<Longrightarrow>
                   Inv s' \<and> (\<forall>j \<in> S. childrenOf s' j = childrenOf s j)"
  shows "Inv st \<Longrightarrow> shaped st t \<Longrightarrow> set (preorder t) \<subseteq> S \<Longrightarrow>
         traverse cb (root t) st = Some (run cb (preorder t) st)"
proof (induction t arbitrary: st)
  case (Tree i ts)
  show ?case
  proof (cases "cb i st")
    case (Throw e s)
    then show ?thesis by (simp add: traverse_def)
  next
    case (Return st1)
    from Tree.prems(3) have i: "i \<in> S" and ids: "\<forall>t \<in> set ts. set (preorder t) \<subseteq> S" by auto
    from step [OF Tree.prems(1) i Return]
    have inv1: "Inv st1" and fr: "\<forall>j \<in> S. childrenOf st1 j = childrenOf st j" by auto
    have ch1: "childrenOf st1 i = map root ts" using fr i Tree.prems(2) by simp
    have sh1: "\<forall>t \<in> set ts. shaped st1 t"
    proof
      fix t assume t: "t \<in> set ts"
      have "shaped st1 t = shaped st t"
        by (rule shaped_cong) (use fr ids t in blast)
      with Tree.prems(2) t show "shaped st1 t" by simp
    qed
    have sub: "traverse cb (root t) s = Some (run cb (preorder t) s)"
      if "t \<in> set ts" "Inv s" "shaped s t" for t s
      using Tree.IH [OF that] ids that(1) by blast
    have "traverseLoop cb i 0 (length ts) st1
            = Some (run cb (concat (map preorder (drop 0 ts))) st1)"
      by (rule traverseLoop_run [where Inv = Inv and S = S, OF step sub ids i inv1 ch1 sh1]) simp_all
    with Return ch1 show ?thesis by (simp add: traverse_def)
  qed
qed

subsection \<open>The object store under add and remove\<close>

lemma childrenOf_kids: "childrenOf st i = kids (objects (world st)) i"
  by (simp add: childrenOf_def kids_def obj_def)

lemma updObj_apply: "updObj i f os j = (if j = i then map_option f (os i) else os j)"
  by (simp add: updObj_def split: option.splits)

lemma updObj_defined: "(updObj i f os j = None) = (os j = None)"
  by (simp add: updObj_apply)

lemma kids_updObj_parent: "kids (updObj i (\<lambda>ob. ob\<lparr>parent := v\<rparr>) os) j = kids os j"
  by (simp add: kids_def updObj_apply split: option.splits)

lemma kids_updObj_remove1:
  "kids (updObj i (\<lambda>ob. ob\<lparr>children := remove1 x (children ob)\<rparr>) os) j
     = (if j = i then remove1 x (kids os i) else kids os j)"
  by (simp add: kids_def updObj_apply split: option.splits)

lemma kids_updObj_append:
  "kids (updObj i (\<lambda>ob. ob\<lparr>children := children ob @ [x]\<rparr>) os) j
     = (if j = i \<and> os i \<noteq> None then kids os i @ [x] else kids os j)"
  by (simp add: kids_def updObj_apply split: option.splits)

lemma par_updObj_remove1:
  "par (updObj i (\<lambda>ob. ob\<lparr>children := remove1 x (children ob)\<rparr>) os) j = par os j"
  by (simp add: par_def updObj_apply split: option.splits)

lemma par_updObj_append:
  "par (updObj i (\<lambda>ob. ob\<lparr>children := children ob @ [x]\<rparr>) os) j = par os j"
  by (simp add: par_def updObj_apply split: option.splits)

lemma par_updObj_parent:
  "par (updObj i (\<lambda>ob. ob\<lparr>parent := v\<rparr>) os) j = (if j = i \<and> os i \<noteq> None then v else par os j)"
  by (simp add: par_def updObj_apply split: option.splits)

lemma three_remove_alt:
  "three_remove p x os =
     (if x \<in> set (kids os p)
      then updObj p (\<lambda>ob. ob\<lparr>children := remove1 x (children ob)\<rparr>)
             (updObj x (\<lambda>ob. ob\<lparr>parent := None\<rparr>) os)
      else os)"
  by (simp add: three_remove_def kids_def split: option.splits)

lemma three_remove_other: "j \<noteq> p \<Longrightarrow> j \<noteq> x \<Longrightarrow> three_remove p x os j = os j"
  by (simp add: three_remove_alt updObj_apply)

lemma three_remove_defined: "(three_remove p x os j = None) = (os j = None)"
  by (simp add: three_remove_alt updObj_defined)

lemma three_remove_kids:
  "kids (three_remove p x os) j = (if j = p then remove1 x (kids os p) else kids os j)"
  by (simp add: three_remove_alt kids_updObj_remove1 kids_updObj_parent remove1_idem)

lemma three_remove_par:
  "par (three_remove p x os) j = (if j = x \<and> x \<in> set (kids os p) then None else par os j)"
proof (cases "x \<in> set (kids os p)")
  case True
  have "os x = None \<Longrightarrow> par os x = None" by (simp add: par_def)
  with True show ?thesis
    by (auto simp: three_remove_alt par_updObj_remove1 par_updObj_parent)
next
  case False
  then show ?thesis by (simp add: three_remove_alt)
qed

lemma three_add_alt:
  "three_add p x os =
     (if x = p \<or> os x = None then os
      else updObj p (\<lambda>pob. pob\<lparr>children := children pob @ [x]\<rparr>)
             (updObj x (\<lambda>ob. ob\<lparr>parent := Some p\<rparr>)
                (case par os x of None \<Rightarrow> os | Some q \<Rightarrow> three_remove q x os)))"
  by (simp add: three_add_def par_def Let_def split: option.splits)

lemma three_add_defined: "(three_add p x os j = None) = (os j = None)"
  by (simp add: three_add_alt updObj_defined three_remove_defined split: option.splits)

lemma three_add_other:
  "j \<noteq> p \<Longrightarrow> j \<noteq> x \<Longrightarrow> par os x \<noteq> Some j \<Longrightarrow> three_add p x os j = os j"
  by (auto simp: three_add_alt updObj_apply three_remove_other split: option.splits)

lemma three_add_par:
  "par (three_add p x os) j = (if j = x \<and> x \<noteq> p \<and> os x \<noteq> None then Some p else par os j)"
  by (auto simp: three_add_alt par_updObj_append par_updObj_parent three_remove_defined
        three_remove_par split: option.splits)

lemma three_add_kids_fresh:
  "par os x = None \<Longrightarrow>
   kids (three_add p x os) j
     = (if j = p \<and> x \<noteq> p \<and> os x \<noteq> None \<and> os p \<noteq> None then kids os p @ [x] else kids os j)"
  by (simp add: three_add_alt kids_updObj_append kids_updObj_parent updObj_defined)

lemma three_add_kids_moved:
  "par os x = Some q \<Longrightarrow> os x \<noteq> None \<Longrightarrow> x \<noteq> p \<Longrightarrow> os p \<noteq> None \<Longrightarrow>
   kids (three_add p x os) j
     = (if j = p then (if q = p then remove1 x (kids os p) else kids os p) @ [x]
        else if j = q then remove1 x (kids os q) else kids os j)"
  by (auto simp: three_add_alt kids_updObj_append kids_updObj_parent updObj_defined
        three_remove_defined three_remove_kids remove1_idem)

subsection \<open>Removing a subtree\<close>

lemma removalFrame_refl: "removalFrame X s s"
  by (simp add: removalFrame_def)

lemma removalFrame_trans:
  assumes "removalFrame X s s1" and "removalFrame X s1 s2"
  shows "removalFrame X s s2"
proof -
  from assms(1) have e1: "s1 = s\<lparr>world := (world s)\<lparr>objects := objects (world s1)\<rparr>,
      helpers := helpers s1, fileDependencies := fileDependencies s1, emitted := emitted s1\<rparr>"
    by (simp add: removalFrame_def)
  from assms(2) have e2: "s2 = s1\<lparr>world := (world s1)\<lparr>objects := objects (world s2)\<rparr>,
      helpers := helpers s2, fileDependencies := fileDependencies s2, emitted := emitted s2\<rparr>"
    by (simp add: removalFrame_def)
  have sh: "sceneHelpers s1 = sceneHelpers s" by (subst e1) simp
  have w1: "world s1 = (world s)\<lparr>objects := objects (world s1)\<rparr>" by (subst e1) simp
  have eq: "s2 = s\<lparr>world := (world s)\<lparr>objects := objects (world s2)\<rparr>,
      helpers := helpers s2, fileDependencies := fileDependencies s2, emitted := emitted s2\<rparr>"
    by (subst e2, subst w1, subst e1) simp
  from assms obtain evs1 evs2 where
    ev: "emitted s1 = emitted s @ evs1" "\<forall>e \<in> set evs1. isHelperRemoved e"
        "emitted s2 = emitted s1 @ evs2" "\<forall>e \<in> set evs2. isHelperRemoved e"
    by (auto simp: removalFrame_def)
  then have evs: "\<exists>evs. emitted s2 = emitted s @ evs \<and> (\<forall>e \<in> set evs. isHelperRemoved e)"
    by (intro exI [of _ "evs1 @ evs2"]) auto
  have hp: "\<forall>i. helpers s2 i = None \<or> helpers s2 i = helpers s i"
    using assms by (simp add: removalFrame_def) metis
  have dp: "\<forall>k. set (dependents s2 k) \<subseteq> set (dependents s k)"
    using assms by (simp add: removalFrame_def) blast
  have rest: "(\<forall>j. j \<noteq> sceneHelpers s \<longrightarrow> childrenOf s2 j = childrenOf s j) \<and>
      (\<forall>j \<in> X. obj s2 j = obj s j) \<and>
      set (childrenOf s2 (sceneHelpers s)) \<subseteq> set (childrenOf s (sceneHelpers s)) \<and>
      (distinct (childrenOf s (sceneHelpers s)) \<longrightarrow> distinct (childrenOf s2 (sceneHelpers s))) \<and>
      dom (fileDependencies s2) = dom (fileDependencies s)"
    using assms sh by (simp add: removalFrame_def) blast
  have df: "\<forall>j. (obj s2 j = None) = (obj s j = None)"
    using assms by (simp add: removalFrame_def)
  from eq evs hp dp rest df show ?thesis
    unfolding removalFrame_def by blast
qed


lemma parentOf_obj: "parentOf s h = Some p \<Longrightarrow> \<exists>hob. obj s h = Some hob \<and> parent hob = Some p"
  by (auto simp: parentOf_def par_def obj_def split: option.splits)

lemma removeHelper_None: "helpers s i = None \<Longrightarrow> removeHelper i s = Return s"
  by (simp add: removeHelper_def)

lemma removeHelper_Some:
  assumes "helpers s i = Some h" and "parentOf s h = Some p"
  shows "removeHelper i s =
     Return (dispatch (HelperRemoved h)
       ((setObjects (three_remove p h (objects (world s))) s)\<lparr>helpers := (helpers s)(i := None)\<rparr>))"
proof -
  from parentOf_obj [OF assms(2)] obtain hob where "obj s h = Some hob" "parent hob = Some p"
    by blast
  with assms(1) show ?thesis by (simp add: removeHelper_def)
qed

lemma helpersInD:
  assumes "helpersIn X s" and "i \<in> X" and "helpers s i = Some h"
  shows "h \<notin> X" and "parentOf s h = Some (sceneHelpers s)"
    and "\<And>j. j \<in> X \<Longrightarrow> helpers s j = Some h \<Longrightarrow> j = i"
  using assms unfolding helpersIn_def by blast+

lemma removeHelper_step:
  assumes hi: "helpersIn X s" and i: "i \<in> X"
  shows "\<exists>s'. removeHelper i s = Return s' \<and> helpersIn X s' \<and> removalFrame X s s' \<and>
           helpers s' = (helpers s)(i := None) \<and>
           fileDependencies s' = fileDependencies s \<and> components s' = components s \<and>
           instances (world s') = instances (world s) \<and>
           (\<forall>h. helpers s i = Some h \<longrightarrow> distinct (childrenOf s (sceneHelpers s)) \<longrightarrow>
                h \<notin> set (childrenOf s' (sceneHelpers s)))"
proof (cases "helpers s i")
  case None
  then have "(helpers s)(i := None) = helpers s" by (intro ext) simp
  with None hi show ?thesis by (simp add: removeHelper_None removalFrame_refl)
next
  case (Some h)
  let ?SH = "sceneHelpers s"
  let ?os = "objects (world s)"
  note hX = helpersInD(1) [OF hi i Some] and ph = helpersInD(2) [OF hi i Some]
    and un = helpersInD(3) [OF hi i Some]
  from hi have shX: "?SH \<notin> X" unfolding helpersIn_def by blast
  let ?s' = "dispatch (HelperRemoved h)
       ((setObjects (three_remove ?SH h ?os) s)\<lparr>helpers := (helpers s)(i := None)\<rparr>)"
  have r: "removeHelper i s = Return ?s'" by (rule removeHelper_Some [OF Some ph])
  have w: "world ?s' = (world s)\<lparr>objects := three_remove ?SH h ?os\<rparr>"
    and hp: "helpers ?s' = (helpers s)(i := None)"
    and em: "emitted ?s' = emitted s @ [HelperRemoved h]"
    and fd: "fileDependencies ?s' = fileDependencies s"
    and cp: "components ?s' = components s"
    and sh: "sceneHelpers ?s' = ?SH"
    by (simp_all add: dispatch_def setObjects_def)
  have os': "objects (world ?s') = three_remove ?SH h ?os" by (simp add: w)
  have eq: "?s' = s\<lparr>world := (world s)\<lparr>objects := objects (world ?s')\<rparr>, helpers := helpers ?s',
             fileDependencies := fileDependencies ?s', emitted := emitted ?s'\<rparr>"
    by (simp add: dispatch_def setObjects_def)
  have ch: "childrenOf ?s' j = (if j = ?SH then remove1 h (childrenOf s ?SH) else childrenOf s j)" for j
    by (simp add: childrenOf_kids os' three_remove_kids)
  have ob: "obj ?s' j = obj s j" if "j \<in> X" for j
  proof -
    from that shX hX have "j \<noteq> ?SH" "j \<noteq> h" by auto
    then show ?thesis by (simp add: obj_def os' three_remove_other)
  qed
  have dep: "dependents ?s' k = dependents s k" for k by (simp add: dependents_def fd)
  have frame: "removalFrame X s ?s'"
    unfolding removalFrame_def
  proof (intro conjI)
    show "?s' = s\<lparr>world := (world s)\<lparr>objects := objects (world ?s')\<rparr>, helpers := helpers ?s',
             fileDependencies := fileDependencies ?s', emitted := emitted ?s'\<rparr>" by (rule eq)
    show "\<forall>j. j \<noteq> ?SH \<longrightarrow> childrenOf ?s' j = childrenOf s j" by (simp add: ch)
    show "\<forall>j \<in> X. obj ?s' j = obj s j" using ob by blast
    show "set (childrenOf ?s' ?SH) \<subseteq> set (childrenOf s ?SH)"
      by (simp add: ch set_remove1_subset)
    show "distinct (childrenOf s ?SH) \<longrightarrow> distinct (childrenOf ?s' ?SH)"
      by (simp add: ch)
    show "\<forall>j. helpers ?s' j = None \<or> helpers ?s' j = helpers s j" by (simp add: hp)
    show "\<forall>k. set (dependents ?s' k) \<subseteq> set (dependents s k)" by (simp add: dep)
    show "dom (fileDependencies ?s') = dom (fileDependencies s)" by (simp add: fd)
    show "\<exists>evs. emitted ?s' = emitted s @ evs \<and> (\<forall>e \<in> set evs. isHelperRemoved e)"
      by (intro exI [of _ "[HelperRemoved h]"]) (simp add: em isHelperRemoved_def)
    show "\<forall>j. (obj ?s' j = None) = (obj s j = None)"
      by (simp add: obj_def os' three_remove_defined)
  qed
  have hin: "helpersIn X ?s'"
    unfolding helpersIn_def
  proof (intro conjI ballI allI impI)
    show "sceneHelpers ?s' \<notin> X" using shX by (simp add: sh)
  next
    fix j h' assume j: "j \<in> X" and h': "helpers ?s' j = Some h'"
    from h' have ji: "j \<noteq> i" and hj: "helpers s j = Some h'"
      by (auto simp: hp split: if_splits)
    note a = helpersInD(1) [OF hi j hj] and b = helpersInD(2) [OF hi j hj]
      and c = helpersInD(3) [OF hi j hj]
    from un [OF j] hj ji have ne: "h' \<noteq> h" by auto
    show "h' \<notin> X" by (rule a)
    show "parentOf ?s' h' = Some (sceneHelpers ?s')"
      using b ne by (simp add: parentOf_def os' three_remove_par sh)
    fix j2 assume j2: "j2 \<in> X" "helpers ?s' j2 = Some h'"
    then have "helpers s j2 = Some h'" by (auto simp: hp split: if_splits)
    with c j2(1) show "j2 = j" by blast
  qed
  have gone: "distinct (childrenOf s ?SH) \<longrightarrow> h \<notin> set (childrenOf ?s' ?SH)"
    by (simp add: ch)
  have inst: "instances (world ?s') = instances (world s)" by (simp add: w)
  show ?thesis
    by (intro exI [of _ ?s'] conjI allI impI r hin frame hp fd cp inst)
      (use gone Some in simp)
qed

lemma releasedExactly_same:
  "fileDependencies s' = fileDependencies s \<Longrightarrow> releasedExactly {} s s'"
  by (simp add: releasedExactly_def dependents_def)

lemma releasedExactly_trans:
  assumes "releasedExactly N1 s s1" and "releasedExactly N2 s1 s2"
    and "\<forall>j \<in> N2. \<forall>k. holdsReference s1 j k = holdsReference s j k"
  shows "releasedExactly (N1 \<union> N2) s s2"
  using assms unfolding releasedExactly_def by blast

lemma releasedExactly_cong:
  assumes "releasedExactly N s1 s2"
    and "\<And>k. dependents s1 k = dependents s k" and "\<And>k. dependents s' k = dependents s2 k"
    and "\<forall>j \<in> N. \<forall>k. holdsReference s1 j k = holdsReference s j k"
  shows "releasedExactly N s s'"
  using assms unfolding releasedExactly_def by simp

lemma holdsReference_cong:
  "getComponent s' j SceneReferenceComponent_componentName
     = getComponent s j SceneReferenceComponent_componentName \<Longrightarrow>
   holdsReference s' j k = holdsReference s j k"
  by (simp add: holdsReference_def)

lemma removeSceneRefDependency_step:
  assumes "components s SceneReferenceComponent_componentName = Some cls"
  shows "\<exists>s'. removeSceneRefDependency i s = Return s' \<and>
           s' = s\<lparr>fileDependencies := fileDependencies s'\<rparr> \<and>
           dom (fileDependencies s') = dom (fileDependencies s) \<and>
           (\<forall>k. set (dependents s' k) \<subseteq> set (dependents s k)) \<and>
           (\<forall>c. getComponent s i SceneReferenceComponent_componentName = Inr (Some c) \<longrightarrow>
                i \<notin> set (dependents s' (getProperty c ''src''))) \<and>
           releasedExactly {i} s s'"
proof -
  from getComponent_registered [OF assms] obtain r where
    r: "getComponent s i SceneReferenceComponent_componentName = Inr r" by blast
  show ?thesis
  proof (cases r)
    case None
    with r show ?thesis
      by (simp add: removeSceneRefDependency_def releasedExactly_def holdsReference_def)
  next
    case (Some c)
    show ?thesis
    proof (cases "fileDependencies s (getProperty c ''src'')")
      case None
      with r Some assms show ?thesis
        by (auto simp: removeSceneRefDependency_def dependents_def releasedExactly_def
            holdsReference_def)
    next
      case (Some ds)
      with r \<open>r = Some c\<close> assms show ?thesis
        by (auto simp: removeSceneRefDependency_def dependents_def releasedExactly_def
            holdsReference_def)
    qed
  qed
qed

lemma getComponent_local:
  assumes "components s' = components s"
    and "components s SceneReferenceComponent_componentName = Some cls" and "nodeLocal cls"
    and "obj s' d = obj s d" and "instances (world s') = instances (world s)"
  shows "getComponent s' d SceneReferenceComponent_componentName
       = getComponent s d SceneReferenceComponent_componentName"
proof -
  from assms(3,4,5) have "cc_getComponent cls (world s') d = cc_getComponent cls (world s) d"
    unfolding nodeLocal_def obj_def by blast
  with assms(1,2,5) show ?thesis by (simp add: getComponent_def split: option.splits)
qed

lemma removalFrameD:
  assumes "removalFrame X s s'"
  shows "components s' = components s" and "sceneHelpers s' = sceneHelpers s"
    and "scene s' = scene s" and "camera s' = camera s"
    and "sceneGraphChanged_active s' = sceneGraphChanged_active s"
    and "instances (world s') = instances (world s)"
    and "nextId (world s') = nextId (world s)"
    and "geometries s' = geometries s" and "materials s' = materials s"
    and "textures s' = textures s" and "scripts s' = scripts s"
    and "selected s' = selected s" and "asyncCalls s' = asyncCalls s"
    and "history s' = history s" and "storage s' = storage s"
proof -
  from assms have e: "s' = s\<lparr>world := (world s)\<lparr>objects := objects (world s')\<rparr>,
      helpers := helpers s', fileDependencies := fileDependencies s', emitted := emitted s'\<rparr>"
    by (simp add: removalFrame_def)
  show "components s' = components s" by (subst e) simp
  show "sceneHelpers s' = sceneHelpers s" by (subst e) simp
  show "scene s' = scene s" by (subst e) simp
  show "camera s' = camera s" by (subst e) simp
  show "sceneGraphChanged_active s' = sceneGraphChanged_active s" by (subst e) simp
  show "instances (world s') = instances (world s)" by (subst e) simp
  show "nextId (world s') = nextId (world s)" by (subst e) simp
  show "geometries s' = geometries s" by (subst e) simp
  show "materials s' = materials s" by (subst e) simp
  show "textures s' = textures s" by (subst e) simp
  show "scripts s' = scripts s" by (subst e) simp
  show "selected s' = selected s" by (subst e) simp
  show "asyncCalls s' = asyncCalls s" by (subst e) simp
  show "history s' = history s" by (subst e) simp
  show "storage s' = storage s" by (subst e) simp
qed

lemma removalFrame_children:
  "removalFrame X s s' \<Longrightarrow> j \<noteq> sceneHelpers s \<Longrightarrow> childrenOf s' j = childrenOf s j"
  unfolding removalFrame_def by blast

lemma removalFrame_obj: "removalFrame X s s' \<Longrightarrow> j \<in> X \<Longrightarrow> obj s' j = obj s j"
  unfolding removalFrame_def by blast

lemma removalFrame_overlay:
  assumes "removalFrame X s s'"
  shows "set (childrenOf s' (sceneHelpers s)) \<subseteq> set (childrenOf s (sceneHelpers s))"
    and "distinct (childrenOf s (sceneHelpers s)) \<Longrightarrow> distinct (childrenOf s' (sceneHelpers s))"
  using assms unfolding removalFrame_def by blast+

lemma removalFrame_helpers: "removalFrame X s s' \<Longrightarrow> helpers s' i = None \<or> helpers s' i = helpers s i"
  unfolding removalFrame_def by blast

lemma removalFrame_dependents:
  "removalFrame X s s' \<Longrightarrow> set (dependents s' k) \<subseteq> set (dependents s k)"
  unfolding removalFrame_def by blast

lemma removalFrame_domain:
  "removalFrame X s s' \<Longrightarrow> dom (fileDependencies s') = dom (fileDependencies s)"
  unfolding removalFrame_def by blast

lemma removalFrame_emitted:
  "removalFrame X s s' \<Longrightarrow> \<exists>evs. emitted s' = emitted s @ evs \<and> (\<forall>e \<in> set evs. isHelperRemoved e)"
  unfolding removalFrame_def by blast

lemma removalFrame_dependencies:
  assumes e: "s' = s\<lparr>fileDependencies := fileDependencies s'\<rparr>"
    and d: "dom (fileDependencies s') = dom (fileDependencies s)"
    and sub: "\<forall>k. set (dependents s' k) \<subseteq> set (dependents s k)"
  shows "removalFrame X s s'"
proof -
  have w: "world s' = world s" and h: "helpers s' = helpers s" and em: "emitted s' = emitted s"
    and sh: "sceneHelpers s' = sceneHelpers s"
    by (subst e, simp)+
  have eq: "s' = s\<lparr>world := (world s)\<lparr>objects := objects (world s')\<rparr>, helpers := helpers s',
             fileDependencies := fileDependencies s', emitted := emitted s'\<rparr>"
    by (simp only: w h em) (subst e, simp)
  have c: "childrenOf s' j = childrenOf s j" and o: "obj s' j = obj s j" for j
    by (simp_all add: childrenOf_def obj_def w)
  show ?thesis
    unfolding removalFrame_def
    by (intro conjI eq) (simp_all add: c o h d em sub)
qed

lemma helpersIn_cong:
  assumes "sceneHelpers s' = sceneHelpers s" and "helpers s' = helpers s" and "world s' = world s"
  shows "helpersIn X s' = helpersIn X s"
  by (simp add: helpersIn_def parentOf_def assms)

lemma removeObject_visit_step:
  assumes hi: "helpersIn X s" and i: "i \<in> X"
    and reg: "components s SceneReferenceComponent_componentName = Some cls"
  shows "\<exists>s'. removeObject_visit i s = Return s' \<and> helpersIn X s' \<and> removalFrame X s s' \<and>
           helpers s' = (helpers s)(i := None) \<and>
           (\<forall>h. helpers s i = Some h \<longrightarrow> distinct (childrenOf s (sceneHelpers s)) \<longrightarrow>
                h \<notin> set (childrenOf s' (sceneHelpers s))) \<and>
           (nodeLocal cls \<longrightarrow>
              (\<forall>c. getComponent s i SceneReferenceComponent_componentName = Inr (Some c) \<longrightarrow>
                   i \<notin> set (dependents s' (getProperty c ''src'')))) \<and>
           (nodeLocal cls \<longrightarrow> releasedExactly {i} s s')"
proof -
  let ?SR = SceneReferenceComponent_componentName
  from removeHelper_step [OF hi i] obtain s0 where
    r0: "removeHelper i s = Return s0" and hi0: "helpersIn X s0" and f0: "removalFrame X s s0"
    and h0: "helpers s0 = (helpers s)(i := None)"
    and fd0: "fileDependencies s0 = fileDependencies s"
    and c0: "components s0 = components s" and in0: "instances (world s0) = instances (world s)"
    and g0: "\<forall>h. helpers s i = Some h \<longrightarrow> distinct (childrenOf s (sceneHelpers s)) \<longrightarrow>
                h \<notin> set (childrenOf s0 (sceneHelpers s))"
    by blast
  from reg c0 have reg0: "components s0 ?SR = Some cls" by simp
  from removeSceneRefDependency_step [OF reg0, of i] obtain s' where
    r1: "removeSceneRefDependency i s0 = Return s'"
    and e1: "s' = s0\<lparr>fileDependencies := fileDependencies s'\<rparr>"
    and d1: "dom (fileDependencies s') = dom (fileDependencies s0)"
    and sub1: "\<forall>k. set (dependents s' k) \<subseteq> set (dependents s0 k)"
    and rel1: "\<forall>c. getComponent s0 i ?SR = Inr (Some c) \<longrightarrow>
                i \<notin> set (dependents s' (getProperty c ''src''))"
    and ex1: "releasedExactly {i} s0 s'"
    by blast
  have w1: "world s' = world s0" and h1: "helpers s' = helpers s0"
    and sh1: "sceneHelpers s' = sceneHelpers s0"
    by (subst e1, simp)+
  have f1: "removalFrame X s0 s'" by (rule removalFrame_dependencies [OF e1 d1 sub1])
  have f: "removalFrame X s s'" by (rule removalFrame_trans [OF f0 f1])
  have hi1: "helpersIn X s'" using hi0 helpersIn_cong [OF sh1 h1 w1] by simp
  have r: "removeObject_visit i s = Return s'" by (simp add: removeObject_visit_def r0 r1)
  have ch: "childrenOf s' j = childrenOf s0 j" for j by (simp add: childrenOf_def obj_def w1)
  have loc: "getComponent s0 i ?SR = getComponent s i ?SR" if "nodeLocal cls"
    by (rule getComponent_local [OF c0 reg that removalFrame_obj [OF f0 i] in0])
  have ex: "nodeLocal cls \<longrightarrow> releasedExactly {i} s s'"
  proof
    assume nl: "nodeLocal cls"
    show "releasedExactly {i} s s'"
    proof (rule releasedExactly_cong [OF ex1])
      show "dependents s0 k = dependents s k" for k by (simp add: dependents_def fd0)
      show "\<forall>j \<in> {i}. \<forall>k. holdsReference s0 j k = holdsReference s j k"
        using holdsReference_cong [OF loc [OF nl]] by simp
    qed simp
  qed
  have "\<exists>s'. removeObject_visit i s = Return s' \<and> helpersIn X s' \<and> removalFrame X s s' \<and>
           helpers s' = (helpers s)(i := None) \<and>
           (\<forall>h. helpers s i = Some h \<longrightarrow> distinct (childrenOf s (sceneHelpers s)) \<longrightarrow>
                h \<notin> set (childrenOf s' (sceneHelpers s))) \<and>
           (nodeLocal cls \<longrightarrow>
              (\<forall>c. getComponent s i SceneReferenceComponent_componentName = Inr (Some c) \<longrightarrow>
                   i \<notin> set (dependents s' (getProperty c ''src''))))"
    by (intro exI [of _ s'] conjI r hi1 f) (use h0 h1 g0 ch rel1 loc in auto)
  with r ex show ?thesis by auto
qed

lemma run_removeObject_visit:
  assumes reg: "components st SceneReferenceComponent_componentName = Some cls"
  shows "helpersIn X st \<Longrightarrow> set xs \<subseteq> X \<Longrightarrow>
     \<exists>st'. run removeObject_visit xs st = Return st' \<and> helpersIn X st' \<and> removalFrame X st st' \<and>
       (\<forall>d \<in> set xs. helpers st' d = None) \<and>
       (distinct (childrenOf st (sceneHelpers st)) \<longrightarrow>
          (\<forall>d \<in> set xs. \<forall>h. helpers st d = Some h \<longrightarrow> h \<notin> set (childrenOf st' (sceneHelpers st)))) \<and>
       (nodeLocal cls \<longrightarrow>
          (\<forall>d \<in> set xs. \<forall>c. getComponent st d SceneReferenceComponent_componentName = Inr (Some c) \<longrightarrow>
               d \<notin> set (dependents st' (getProperty c ''src'')))) \<and>
       (nodeLocal cls \<longrightarrow> releasedExactly (set xs) st st')"
  using reg
proof (induction xs arbitrary: st)
  case Nil
  then show ?case by (simp add: removalFrame_refl releasedExactly_same)
next
  case (Cons x xs)
  let ?SR = SceneReferenceComponent_componentName
  let ?SH = "sceneHelpers st"
  from Cons.prems have hi: "helpersIn X st" and x: "x \<in> X" and xs: "set xs \<subseteq> X"
    and reg: "components st ?SR = Some cls" by auto
  from removeObject_visit_step [OF hi x reg] obtain s1 where
    r1: "removeObject_visit x st = Return s1" and hi1: "helpersIn X s1"
    and f1: "removalFrame X st s1" and h1: "helpers s1 = (helpers st)(x := None)"
    and g1: "\<forall>h. helpers st x = Some h \<longrightarrow> distinct (childrenOf st ?SH) \<longrightarrow>
                h \<notin> set (childrenOf s1 ?SH)"
    and l1: "nodeLocal cls \<longrightarrow>
              (\<forall>c. getComponent st x ?SR = Inr (Some c) \<longrightarrow>
                   x \<notin> set (dependents s1 (getProperty c ''src'')))"
    and e1: "nodeLocal cls \<longrightarrow> releasedExactly {x} st s1"
    by blast
  have reg1: "components s1 ?SR = Some cls" using reg removalFrameD(1) [OF f1] by simp
  have sh1: "sceneHelpers s1 = ?SH" by (rule removalFrameD(2) [OF f1])
  from Cons.IH [OF hi1 xs reg1] obtain st' where
    r2: "run removeObject_visit xs s1 = Return st'" and hi2: "helpersIn X st'"
    and f2: "removalFrame X s1 st'"
    and n2: "\<forall>d \<in> set xs. helpers st' d = None"
    and g2: "distinct (childrenOf s1 ?SH) \<longrightarrow>
          (\<forall>d \<in> set xs. \<forall>h. helpers s1 d = Some h \<longrightarrow> h \<notin> set (childrenOf st' ?SH))"
    and l2: "nodeLocal cls \<longrightarrow>
          (\<forall>d \<in> set xs. \<forall>c. getComponent s1 d ?SR = Inr (Some c) \<longrightarrow>
               d \<notin> set (dependents st' (getProperty c ''src'')))"
    and e2: "nodeLocal cls \<longrightarrow> releasedExactly (set xs) s1 st'"
    by (auto simp: sh1)
  have f: "removalFrame X st st'" by (rule removalFrame_trans [OF f1 f2])
  have r: "run removeObject_visit (x # xs) st = Return st'" by (simp add: r1 r2)
  have n: "\<forall>d \<in> set (x # xs). helpers st' d = None"
  proof
    fix d assume d: "d \<in> set (x # xs)"
    show "helpers st' d = None"
    proof (cases "d \<in> set xs")
      case True
      with n2 show ?thesis by blast
    next
      case False
      with d have "d = x" by simp
      with removalFrame_helpers [OF f2, of x] h1 show ?thesis by auto
    qed
  qed
  have sub2: "set (childrenOf st' ?SH) \<subseteq> set (childrenOf s1 ?SH)"
    using removalFrame_overlay(1) [OF f2] by (simp add: sh1)
  have g: "distinct (childrenOf st ?SH) \<longrightarrow>
          (\<forall>d \<in> set (x # xs). \<forall>h. helpers st d = Some h \<longrightarrow> h \<notin> set (childrenOf st' ?SH))"
  proof (intro impI ballI allI)
    fix d h
    assume dist: "distinct (childrenOf st ?SH)" and d: "d \<in> set (x # xs)"
      and h: "helpers st d = Some h"
    have dist1: "distinct (childrenOf s1 ?SH)" by (rule removalFrame_overlay(2) [OF f1 dist])
    show "h \<notin> set (childrenOf st' ?SH)"
    proof (cases "d = x")
      case True
      with g1 h dist have "h \<notin> set (childrenOf s1 ?SH)" by blast
      with sub2 show ?thesis by blast
    next
      case False
      with d have dx: "d \<in> set xs" by simp
      from False h h1 have "helpers s1 d = Some h" by simp
      with g2 dist1 dx show ?thesis by blast
    qed
  qed
  have l: "nodeLocal cls \<longrightarrow>
          (\<forall>d \<in> set (x # xs). \<forall>c. getComponent st d ?SR = Inr (Some c) \<longrightarrow>
               d \<notin> set (dependents st' (getProperty c ''src'')))"
  proof (intro impI ballI allI)
    fix d c
    assume nl: "nodeLocal cls" and d: "d \<in> set (x # xs)"
      and c: "getComponent st d ?SR = Inr (Some c)"
    show "d \<notin> set (dependents st' (getProperty c ''src''))"
    proof (cases "d = x")
      case True
      with l1 nl c have "x \<notin> set (dependents s1 (getProperty c ''src''))" by blast
      with removalFrame_dependents [OF f2, of "getProperty c ''src''"] True show ?thesis by blast
    next
      case False
      with d have dx: "d \<in> set xs" by simp
      with xs have dX: "d \<in> X" by blast
      have "getComponent s1 d ?SR = getComponent st d ?SR"
        by (rule getComponent_local [OF removalFrameD(1) [OF f1] reg nl
              removalFrame_obj [OF f1 dX] removalFrameD(6) [OF f1]])
      with c l2 nl dx show ?thesis by auto
    qed
  qed
  have e: "nodeLocal cls \<longrightarrow> releasedExactly (set (x # xs)) st st'"
  proof
    assume nl: "nodeLocal cls"
    have hr: "\<forall>j \<in> set xs. \<forall>k. holdsReference s1 j k = holdsReference st j k"
    proof (intro ballI allI)
      fix j k assume "j \<in> set xs"
      with xs have jX: "j \<in> X" by blast
      show "holdsReference s1 j k = holdsReference st j k"
        by (rule holdsReference_cong,
            rule getComponent_local [OF removalFrameD(1) [OF f1] reg nl
              removalFrame_obj [OF f1 jX] removalFrameD(6) [OF f1]])
    qed
    from e1 e2 nl have a: "releasedExactly {x} st s1" and b: "releasedExactly (set xs) s1 st'"
      by simp_all
    from releasedExactly_trans [OF a b hr]
    show "releasedExactly (set (x # xs)) st st'" by simp
  qed
  show ?case
    by (intro exI [of _ st'] conjI r hi2 f n g l e)
qed

lemma removableD:
  assumes "removable st t"
  shows "shaped st t" and "helpersIn (set (preorder t)) st"
    and "distinct (childrenOf st (sceneHelpers st))"
    and "\<exists>cls. components st SceneReferenceComponent_componentName = Some cls \<and> nodeLocal cls"
  using assms by (auto simp: removable_def split: option.splits)

lemma traverse_removeObject_visit:
  assumes sh: "shaped st t" and hi: "helpersIn (set (preorder t)) st"
    and reg: "components st SceneReferenceComponent_componentName = Some cls"
  shows "traverse removeObject_visit (root t) st = Some (run removeObject_visit (preorder t) st)"
proof -
  let ?X = "set (preorder t)"
  let ?SR = SceneReferenceComponent_componentName
  let ?Inv = "\<lambda>s. helpersIn ?X s \<and> components s ?SR = Some cls"
  have step: "?Inv s' \<and> (\<forall>j \<in> ?X. childrenOf s' j = childrenOf s j)"
    if inv: "?Inv s" and i: "i \<in> ?X" and r: "removeObject_visit i s = Return s'" for i s s'
  proof -
    from inv have hi: "helpersIn ?X s" and reg: "components s ?SR = Some cls" by auto
    from removeObject_visit_step [OF hi i reg] r
    have hi': "helpersIn ?X s'" and f: "removalFrame ?X s s'" by auto
    from hi have shX: "sceneHelpers s \<notin> ?X" unfolding helpersIn_def by blast
    have "childrenOf s' j = childrenOf s j" if "j \<in> ?X" for j
      by (rule removalFrame_children [OF f]) (use that shX in blast)
    with hi' reg removalFrameD(1) [OF f] show ?thesis by simp
  qed
  show ?thesis
    by (rule traverse_run [where Inv = ?Inv and S = ?X, OF step _ sh])
      (use hi reg in simp_all)
qed

text \<open>
  Claim C8, amended. A node without a parent is left alone: removeObject returns without
  an error and without any change of state. For a node with a parent (that is a listed,
  unrepeated child of its parent, outside the overlay scene) whose subtree is \<open>t\<close>,
  removeObject returns and afterwards: no node of the subtree has an entry in the helper
  map, and the helper that was registered under the node's own id is no longer in the
  overlay scene; no node of the subtree that carried a scene-reference component is
  listed as a dependent under that component's \<open>src\<close>; the node has no parent and is not
  among its former parent's children; and the notifications emitted are helper removals,
  then "object removed", and then "graph changed" exactly when that channel is not
  suppressed.
\<close>

theorem removeObject_effects:
  "(obj st object = Some ob \<and> parent ob = None \<longrightarrow> removeObject object st = Some (Return st)) \<and>
   (removable st t \<and> root t = object \<and> parentOf st object = Some p \<and> p \<noteq> sceneHelpers st \<and>
    object \<in> set (childrenOf st p) \<and> distinct (childrenOf st p) \<longrightarrow>
      (\<exists>st'. removeObject object st = Some (Return st') \<and>
         (\<forall>d \<in> set (preorder t). helpers st' d = None \<and>
            (\<forall>h. helpers st d = Some h \<longrightarrow> h \<notin> set (childrenOf st' (sceneHelpers st)))) \<and>
         (\<forall>d \<in> set (preorder t). \<forall>c.
            getComponent st d SceneReferenceComponent_componentName = Inr (Some c) \<longrightarrow>
            d \<notin> set (dependents st' (getProperty c ''src''))) \<and>
         parentOf st' object = None \<and> object \<notin> set (childrenOf st' p) \<and>
         (\<exists>evs. emitted st' = emitted st @ evs @ [ObjectRemoved object]
                    @ (if sceneGraphChanged_active st then [SceneGraphChanged] else []) \<and>
                (\<forall>e \<in> set evs. isHelperRemoved e))))"
proof (intro conjI impI)
  assume "obj st object = Some ob \<and> parent ob = None"
  then show "removeObject object st = Some (Return st)" by (simp add: removeObject_def)
next
  let ?SR = SceneReferenceComponent_componentName
  let ?X = "set (preorder t)"
  let ?SH = "sceneHelpers st"
  assume a: "removable st t \<and> root t = object \<and> parentOf st object = Some p \<and>
    p \<noteq> sceneHelpers st \<and> object \<in> set (childrenOf st p) \<and> distinct (childrenOf st p)"
  then have rm: "removable st t" and rt: "root t = object" and po: "parentOf st object = Some p"
    and pSH: "p \<noteq> ?SH" and oin: "object \<in> set (childrenOf st p)"
    and dp: "distinct (childrenOf st p)" by auto
  note sh = removableD(1) [OF rm] and hi = removableD(2) [OF rm] and dSH = removableD(3) [OF rm]
  from removableD(4) [OF rm] obtain cls where reg: "components st ?SR = Some cls"
    and nl: "nodeLocal cls" by blast
  have oX: "object \<in> ?X" using root_in_preorder [of t] rt by simp
  from run_removeObject_visit [OF reg hi, of "preorder t"] obtain st1 where
    r1: "run removeObject_visit (preorder t) st = Return st1"
    and f1: "removalFrame ?X st st1"
    and n1: "\<forall>d \<in> ?X. helpers st1 d = None"
    and g1: "\<forall>d \<in> ?X. \<forall>h. helpers st d = Some h \<longrightarrow> h \<notin> set (childrenOf st1 ?SH)"
    and l1: "\<forall>d \<in> ?X. \<forall>c. getComponent st d ?SR = Inr (Some c) \<longrightarrow>
               d \<notin> set (dependents st1 (getProperty c ''src''))"
    using dSH nl by auto
  have tr: "traverse removeObject_visit object st = Some (Return st1)"
    using traverse_removeObject_visit [OF sh hi reg] rt r1 by simp
  from parentOf_obj [OF po] obtain ob0 where ob0: "obj st object = Some ob0"
    "parent ob0 = Some p" by blast
  have ob1: "obj st1 object = Some ob0" using removalFrame_obj [OF f1 oX] ob0 by simp
  let ?os1 = "objects (world st1)"
  let ?st2 = "setObjects (three_remove p object ?os1) st1"
  let ?st' = "dispatch_sceneGraphChanged (dispatch (ObjectRemoved object) ?st2)"
  have res: "removeObject object st = Some (Return ?st')"
    by (simp add: removeObject_def ob0 tr ob1)
  have w': "objects (world ?st') = three_remove p object ?os1"
    and h': "helpers ?st' = helpers st1"
    and fd': "fileDependencies ?st' = fileDependencies st1"
    and em': "emitted ?st' = emitted st1 @ [ObjectRemoved object]
                @ (if sceneGraphChanged_active st1 then [SceneGraphChanged] else [])"
    by (simp_all add: dispatch_sceneGraphChanged_def dispatch_def setObjects_def)
  have ch': "childrenOf ?st' j = (if j = p then remove1 object (childrenOf st1 p) else childrenOf st1 j)" for j
    by (simp only: childrenOf_kids w' three_remove_kids)
  have chp: "childrenOf st1 p = childrenOf st p" by (rule removalFrame_children [OF f1 pSH])
  have dep': "dependents ?st' k = dependents st1 k" for k by (simp add: dependents_def fd')
  have A: "\<forall>d \<in> ?X. helpers ?st' d = None \<and>
            (\<forall>h. helpers st d = Some h \<longrightarrow> h \<notin> set (childrenOf ?st' ?SH))"
    using n1 g1 pSH by (simp add: h' ch')
  have B: "\<forall>d \<in> ?X. \<forall>c. getComponent st d ?SR = Inr (Some c) \<longrightarrow>
            d \<notin> set (dependents ?st' (getProperty c ''src''))"
    using l1 by (simp add: dep')
  have C1: "parentOf ?st' object = None"
    using oin by (simp add: parentOf_def w' three_remove_par childrenOf_kids [symmetric] chp)
  have C2: "object \<notin> set (childrenOf ?st' p)"
    using dp by (simp add: ch' chp)
  from removalFrame_emitted [OF f1] obtain evs where
    evs: "emitted st1 = emitted st @ evs" "\<forall>e \<in> set evs. isHelperRemoved e" by blast
  have D: "\<exists>evs. emitted ?st' = emitted st @ evs @ [ObjectRemoved object]
                    @ (if sceneGraphChanged_active st then [SceneGraphChanged] else []) \<and>
                (\<forall>e \<in> set evs. isHelperRemoved e)"
    by (intro exI [of _ evs]) (simp add: em' evs removalFrameD(5) [OF f1])
  show "\<exists>st'. removeObject object st = Some (Return st') \<and>
         (\<forall>d \<in> ?X. helpers st' d = None \<and>
            (\<forall>h. helpers st d = Some h \<longrightarrow> h \<notin> set (childrenOf st' ?SH))) \<and>
         (\<forall>d \<in> ?X. \<forall>c. getComponent st d ?SR = Inr (Some c) \<longrightarrow>
            d \<notin> set (dependents st' (getProperty c ''src''))) \<and>
         parentOf st' object = None \<and> object \<notin> set (childrenOf st' p) \<and>
         (\<exists>evs. emitted st' = emitted st @ evs @ [ObjectRemoved object]
                    @ (if sceneGraphChanged_active st then [SceneGraphChanged] else []) \<and>
                (\<forall>e \<in> set evs. isHelperRemoved e))"
    by (intro exI [of _ ?st'] conjI res A B C1 C2 D)
qed


lemma nodeLocal_fixture_class: "nodeLocal (fixture_class n)"
  by (simp add: nodeLocal_def fixture_class_def)

lemma fixture_light_scene_store:
  "childrenOf fixture_light_scene 0 = [3]" "childrenOf fixture_light_scene 1 = [5]"
  "childrenOf fixture_light_scene (Suc 0) = [5]"
  "childrenOf fixture_light_scene 3 = [4]" "childrenOf fixture_light_scene 4 = []"
  "parentOf fixture_light_scene 3 = Some 0" "parentOf fixture_light_scene 5 = Some 1"
  "obj fixture_light_scene 0 = Some (fixture_object Scene None [3] None)"
  "sceneHelpers fixture_light_scene = 1"
  "helpers fixture_light_scene = [3 \<mapsto> 5]"
  "components fixture_light_scene SceneReferenceComponent_componentName
     = Some (fixture_class ''scene-reference'')"
  by (simp_all add: fixture_light_scene_def childrenOf_def parentOf_def par_def obj_def
        fixture_object_def SceneReferenceComponent_componentName_def)

lemma fixture_light_scene_reads:
  "getComponent fixture_light_scene 4 SceneReferenceComponent_componentName
     = Inr (Some \<lparr>comp_name = ''scene-reference'', comp_props = Some [(''src'', ''a'')],
                  shouldSave = True\<rparr>)"
  by (simp add: fixture_light_scene_def fixture_class_def getComponent_def
        SceneReferenceComponent_componentName_def)

lemma fixture_light_scene_removable: "removable fixture_light_scene (Tree 3 [Tree 4 []])"
  by (simp add: removable_def helpersIn_def fixture_light_scene_store nodeLocal_fixture_class)

theorem removeObject_effects_witness:
  "removable fixture_light_scene (Tree 3 [Tree 4 []]) \<and>
   parentOf fixture_light_scene 3 = Some 0 \<and>
   (\<exists>st'. removeObject 3 fixture_light_scene = Some (Return st') \<and>
      helpers st' 3 = None \<and> helpers st' 4 = None \<and> 5 \<notin> set (childrenOf st' 1) \<and>
      4 \<notin> set (dependents st' (Some ''a'')) \<and>
      parentOf st' 3 = None \<and> 3 \<notin> set (childrenOf st' 0)) \<and>
   parent (fixture_object Scene None [3] None) = None \<and>
   removeObject 0 fixture_light_scene = Some (Return fixture_light_scene)"
proof -
  let ?fx = fixture_light_scene
  let ?t = "Tree 3 [Tree 4 []]"
  have p0: "obj ?fx 0 = Some (fixture_object Scene None [3] None) \<and>
            parent (fixture_object Scene None [3] None) = None"
    by (simp add: fixture_light_scene_store) (simp add: fixture_object_def)
  have h: "removable ?fx ?t \<and> root ?t = 3 \<and> parentOf ?fx 3 = Some 0 \<and> 0 \<noteq> sceneHelpers ?fx \<and>
    3 \<in> set (childrenOf ?fx 0) \<and> distinct (childrenOf ?fx 0)"
    by (simp add: fixture_light_scene_removable fixture_light_scene_store)
  from removeObject_effects [of ?fx 0 "fixture_object Scene None [3] None"] p0
  have 1: "removeObject 0 ?fx = Some (Return ?fx)" by blast
  from removeObject_effects [of ?fx 3 _ ?t 0] h
  obtain st' where r: "removeObject 3 ?fx = Some (Return st')"
    and a: "\<forall>d \<in> set (preorder ?t). helpers st' d = None \<and>
            (\<forall>h. helpers ?fx d = Some h \<longrightarrow> h \<notin> set (childrenOf st' (sceneHelpers ?fx)))"
    and b: "\<forall>d \<in> set (preorder ?t). \<forall>c.
            getComponent ?fx d SceneReferenceComponent_componentName = Inr (Some c) \<longrightarrow>
            d \<notin> set (dependents st' (getProperty c ''src''))"
    and c: "parentOf st' 3 = None" "3 \<notin> set (childrenOf st' 0)"
    by blast
  from a have a': "helpers st' 3 = None" "helpers st' 4 = None" "5 \<notin> set (childrenOf st' 1)"
    by (simp_all add: fixture_light_scene_store)
  from b have b': "4 \<notin> set (dependents st' (Some ''a''))"
    by (simp add: fixture_light_scene_reads getProperty_def)
  from h p0 1 r a' b' c show ?thesis by blast
qed

lemma fixture_light_scene_suppressed_store:
  "childrenOf fixture_light_scene_suppressed j = childrenOf fixture_light_scene j"
  "parentOf fixture_light_scene_suppressed j = parentOf fixture_light_scene j"
  "obj fixture_light_scene_suppressed j = obj fixture_light_scene j"
  "sceneHelpers fixture_light_scene_suppressed = 1"
  "helpers fixture_light_scene_suppressed = [3 \<mapsto> 5]"
  "components fixture_light_scene_suppressed = components fixture_light_scene"
  "emitted fixture_light_scene_suppressed = []"
  "\<not> sceneGraphChanged_active fixture_light_scene_suppressed"
  by (simp_all add: fixture_light_scene_suppressed_def childrenOf_def parentOf_def obj_def
      fixture_light_scene_def)

lemma fixture_light_scene_suppressed_visits:
  "\<exists>s1. run removeObject_visit (preorder (Tree 3 [Tree 4 []])) fixture_light_scene_suppressed
          = Return s1 \<and>
     emitted s1 = [HelperRemoved 5] \<and> \<not> sceneGraphChanged_active s1 \<and>
     obj s1 3 = Some (fixture_object DirectionalLight (Some 0) [4] None)"
  by (simp add: fixture_light_scene_suppressed_def fixture_light_scene_def fixture_object_def
      fixture_userData_def fixture_class_def removeObject_visit_def removeHelper_def
      removeSceneRefDependency_def getComponent_def getProperty_def andThen_def obj_def
      three_remove_def updObj_def dispatch_def setObjects_def
      SceneReferenceComponent_componentName_def)

text \<open>
  Claim C8 as stated fails: while the "graph changed" channel is suppressed (as it is
  inside setScene), removeObject of the light 3, which has the parent 0, emits the helper
  removal and "object removed", and no "graph changed".
\<close>

theorem removeObject_suppressed_channel:
  "parentOf fixture_light_scene_suppressed 3 = Some 0 \<and>
   returned (removeObject 3 fixture_light_scene_suppressed) \<and>
   map_option (emitted \<circ> stateOf) (removeObject 3 fixture_light_scene_suppressed)
     = Some [HelperRemoved 5, ObjectRemoved 3]"
proof -
  let ?fx = fixture_light_scene_suppressed
  let ?t = "Tree 3 [Tree 4 []]"
  from fixture_light_scene_suppressed_visits obtain s1 where
    r1: "run removeObject_visit (preorder ?t) ?fx = Return s1"
    and e1: "emitted s1 = [HelperRemoved 5]" and a1: "\<not> sceneGraphChanged_active s1"
    and o1: "obj s1 3 = Some (fixture_object DirectionalLight (Some 0) [4] None)"
    by blast
  have sh: "shaped ?fx ?t"
    by (simp add: fixture_light_scene_suppressed_store fixture_light_scene_store)
  have hi: "helpersIn (set (preorder ?t)) ?fx"
    by (simp add: helpersIn_def fixture_light_scene_suppressed_store fixture_light_scene_store)
  have reg: "components ?fx SceneReferenceComponent_componentName
               = Some (fixture_class ''scene-reference'')"
    by (simp add: fixture_light_scene_suppressed_store fixture_light_scene_store)
  have tr: "traverse removeObject_visit 3 ?fx = Some (Return s1)"
    using traverse_removeObject_visit [OF sh hi reg] r1 by simp
  have o: "obj ?fx 3 = Some (fixture_object DirectionalLight (Some 0) [4] None)"
    by (simp add: fixture_light_scene_suppressed_def fixture_light_scene_def obj_def)
  have p: "parent (fixture_object DirectionalLight (Some 0) [4] None) = Some 0"
    by (simp add: fixture_object_def)
  have res: "removeObject 3 ?fx =
       Some (Return (dispatch_sceneGraphChanged (dispatch (ObjectRemoved 3)
         (setObjects (three_remove 0 3 (objects (world s1))) s1))))"
    by (simp add: removeObject_def o p tr o1)
  have po: "parentOf ?fx 3 = Some 0"
    by (simp add: fixture_light_scene_suppressed_store fixture_light_scene_store)
  show ?thesis
    by (simp add: po res returned_def e1 a1 dispatch_sceneGraphChanged_def dispatch_def
        setObjects_def)
qed

subsection \<open>Removing all children of the scene root\<close>

lemma unframed_selectors:
  "components (unframed s) = components s" "sceneHelpers (unframed s) = sceneHelpers s"
  "scene (unframed s) = scene s" "camera (unframed s) = camera s"
  "sceneGraphChanged_active (unframed s) = sceneGraphChanged_active s"
  "instances (world (unframed s)) = instances (world s)"
  "nextId (world (unframed s)) = nextId (world s)"
  "geometries (unframed s) = geometries s" "materials (unframed s) = materials s"
  "textures (unframed s) = textures s" "scripts (unframed s) = scripts s"
  "selected (unframed s) = selected s" "asyncCalls (unframed s) = asyncCalls s"
  "history (unframed s) = history s" "storage (unframed s) = storage s"
  by (simp_all add: unframed_def)

lemma unframed_fields:
  assumes e: "unframed s' = unframed s"
  shows "components s' = components s" and "sceneHelpers s' = sceneHelpers s"
    and "scene s' = scene s" and "camera s' = camera s"
    and "sceneGraphChanged_active s' = sceneGraphChanged_active s"
    and "instances (world s') = instances (world s)"
    and "nextId (world s') = nextId (world s)"
    and "geometries s' = geometries s" and "materials s' = materials s"
    and "textures s' = textures s" and "scripts s' = scripts s"
    and "selected s' = selected s" and "asyncCalls s' = asyncCalls s"
    and "history s' = history s" and "storage s' = storage s"
proof -
  show "components s' = components s"
    using arg_cong [OF e, of components] by (simp only: unframed_selectors)
  show "sceneHelpers s' = sceneHelpers s"
    using arg_cong [OF e, of sceneHelpers] by (simp only: unframed_selectors)
  show "scene s' = scene s"
    using arg_cong [OF e, of scene] by (simp only: unframed_selectors)
  show "camera s' = camera s"
    using arg_cong [OF e, of camera] by (simp only: unframed_selectors)
  show "sceneGraphChanged_active s' = sceneGraphChanged_active s"
    using arg_cong [OF e, of sceneGraphChanged_active] by (simp only: unframed_selectors)
  show "instances (world s') = instances (world s)"
    using arg_cong [OF e, of "\<lambda>s. instances (world s)"] by (simp only: unframed_selectors)
  show "nextId (world s') = nextId (world s)"
    using arg_cong [OF e, of "\<lambda>s. nextId (world s)"] by (simp only: unframed_selectors)
  show "geometries s' = geometries s"
    using arg_cong [OF e, of geometries] by (simp only: unframed_selectors)
  show "materials s' = materials s"
    using arg_cong [OF e, of materials] by (simp only: unframed_selectors)
  show "textures s' = textures s"
    using arg_cong [OF e, of textures] by (simp only: unframed_selectors)
  show "scripts s' = scripts s"
    using arg_cong [OF e, of scripts] by (simp only: unframed_selectors)
  show "selected s' = selected s"
    using arg_cong [OF e, of selected] by (simp only: unframed_selectors)
  show "asyncCalls s' = asyncCalls s"
    using arg_cong [OF e, of asyncCalls] by (simp only: unframed_selectors)
  show "history s' = history s"
    using arg_cong [OF e, of history] by (simp only: unframed_selectors)
  show "storage s' = storage s"
    using arg_cong [OF e, of storage] by (simp only: unframed_selectors)
qed

lemma removalFrame_unframed: "removalFrame X s s' \<Longrightarrow> unframed s' = unframed s"
proof -
  assume "removalFrame X s s'"
  then have e: "s' = s\<lparr>world := (world s)\<lparr>objects := objects (world s')\<rparr>,
      helpers := helpers s', fileDependencies := fileDependencies s', emitted := emitted s'\<rparr>"
    unfolding removalFrame_def by blast
  show ?thesis by (subst e) (simp add: unframed_def)
qed

lemma detachFrameD:
  assumes "detachFrame X R s s'"
  shows "unframed s' = unframed s"
    and "\<forall>j. j \<noteq> sceneHelpers s \<and> j \<noteq> scene s \<longrightarrow> childrenOf s' j = childrenOf s j"
    and "\<forall>j \<in> X. j \<notin> R \<longrightarrow> parentOf s' j = parentOf s j"
    and "\<forall>j. (obj s' j = None) = (obj s j = None)"
    and "\<forall>k. set (dependents s' k) \<subseteq> set (dependents s k)"
    and "dom (fileDependencies s') = dom (fileDependencies s)"
    and "\<exists>evs. emitted s' = emitted s @ evs \<and>
         (\<forall>e \<in> set evs. e \<noteq> SceneSet \<and>
            (e = SceneGraphChanged \<longrightarrow> sceneGraphChanged_active s))"
  using assms unfolding detachFrame_def by simp_all

lemma detachFrame_unframed: "detachFrame X R s s' \<Longrightarrow> unframed s' = unframed s"
  by (rule detachFrameD(1))

lemma detachFrame_children:
  "detachFrame X R s s' \<Longrightarrow> j \<noteq> sceneHelpers s \<Longrightarrow> j \<noteq> scene s \<Longrightarrow>
   childrenOf s' j = childrenOf s j"
  using detachFrameD(2) by blast

lemma detachFrame_parent:
  "detachFrame X R s s' \<Longrightarrow> j \<in> X \<Longrightarrow> j \<notin> R \<Longrightarrow> parentOf s' j = parentOf s j"
  using detachFrameD(3) by blast

lemma detachFrame_defined: "detachFrame X R s s' \<Longrightarrow> (obj s' j = None) = (obj s j = None)"
  using detachFrameD(4) by blast

lemma detachFrame_dependents:
  "detachFrame X R s s' \<Longrightarrow> set (dependents s' k) \<subseteq> set (dependents s k)"
  using detachFrameD(5) by blast

lemma detachFrame_domain:
  "detachFrame X R s s' \<Longrightarrow> dom (fileDependencies s') = dom (fileDependencies s)"
  by (rule detachFrameD(6))

lemma detachFrame_emitted:
  "detachFrame X R s s' \<Longrightarrow>
   \<exists>evs. emitted s' = emitted s @ evs \<and>
     (\<forall>e \<in> set evs. e \<noteq> SceneSet \<and> (e = SceneGraphChanged \<longrightarrow> sceneGraphChanged_active s))"
  by (rule detachFrameD(7))

lemma detachFrame_refl: "detachFrame X R s s"
  unfolding detachFrame_def by (intro conjI exI [of _ "[]"]) simp_all

lemma detachFrame_trans:
  assumes a: "detachFrame X R1 s s1" and b: "detachFrame X R2 s1 s2"
  shows "detachFrame X (R1 \<union> R2) s s2"
proof -
  note f1 = unframed_fields [OF detachFrame_unframed [OF a]]
  have eq: "unframed s2 = unframed s"
    using detachFrame_unframed [OF a] detachFrame_unframed [OF b] by simp
  from detachFrame_emitted [OF a] detachFrame_emitted [OF b] obtain evs1 evs2 where
    ev: "emitted s1 = emitted s @ evs1"
        "\<forall>e \<in> set evs1. e \<noteq> SceneSet \<and> (e = SceneGraphChanged \<longrightarrow> sceneGraphChanged_active s)"
        "emitted s2 = emitted s1 @ evs2"
        "\<forall>e \<in> set evs2. e \<noteq> SceneSet \<and> (e = SceneGraphChanged \<longrightarrow> sceneGraphChanged_active s1)"
    by blast
  have evs: "\<exists>evs. emitted s2 = emitted s @ evs \<and>
      (\<forall>e \<in> set evs. e \<noteq> SceneSet \<and> (e = SceneGraphChanged \<longrightarrow> sceneGraphChanged_active s))"
    using ev f1(5) by (intro exI [of _ "evs1 @ evs2"]) auto
  have ch: "\<forall>j. j \<noteq> sceneHelpers s \<and> j \<noteq> scene s \<longrightarrow> childrenOf s2 j = childrenOf s j"
    using detachFrame_children [OF a] detachFrame_children [OF b] f1(2,3) by simp
  have pa: "\<forall>j \<in> X. j \<notin> R1 \<union> R2 \<longrightarrow> parentOf s2 j = parentOf s j"
    using detachFrame_parent [OF a] detachFrame_parent [OF b] by simp
  have df: "\<forall>j. (obj s2 j = None) = (obj s j = None)"
    using detachFrame_defined [OF a] detachFrame_defined [OF b] by simp
  have dp: "\<forall>k. set (dependents s2 k) \<subseteq> set (dependents s k)"
    using detachFrame_dependents [OF a] detachFrame_dependents [OF b] by blast
  have dm: "dom (fileDependencies s2) = dom (fileDependencies s)"
    using detachFrame_domain [OF a] detachFrame_domain [OF b] by simp
  show ?thesis
    unfolding detachFrame_def by (intro conjI eq ch pa df dp dm evs)
qed

lemma helpersIn_mono: "helpersIn X s \<Longrightarrow> Y \<subseteq> X \<Longrightarrow> helpersIn Y s"
  unfolding helpersIn_def by blast

lemma removeObject_child_of_scene:
  assumes sh: "shaped st t" and hi: "helpersIn X st" and sub: "set (preorder t) \<subseteq> X"
    and reg: "components st SceneReferenceComponent_componentName = Some cls"
    and po: "parentOf st (root t) = Some (scene st)"
    and ne: "scene st \<noteq> sceneHelpers st"
  shows "\<exists>st'. removeObject (root t) st = Some (Return st') \<and> helpersIn X st' \<and>
           detachFrame X {root t} st st' \<and>
           childrenOf st' (scene st) = remove1 (root t) (childrenOf st (scene st)) \<and>
           (root t \<in> set (childrenOf st (scene st)) \<longrightarrow> parentOf st' (root t) = None) \<and>
           (\<forall>j \<in> X. j \<noteq> root t \<and> j \<noteq> scene st \<longrightarrow> obj st' j = obj st j) \<and>
           (nodeLocal cls \<longrightarrow> releasedExactly (set (preorder t)) st st')"
proof -
  let ?SR = SceneReferenceComponent_componentName
  let ?c = "root t"
  let ?sc = "scene st"
  let ?SH = "sceneHelpers st"
  have cX: "?c \<in> X" using root_in_preorder [of t] sub by blast
  from run_removeObject_visit [OF reg hi sub] obtain st1 where
    r1: "run removeObject_visit (preorder t) st = Return st1"
    and hi1: "helpersIn X st1" and f1: "removalFrame X st st1"
    and e1: "nodeLocal cls \<longrightarrow> releasedExactly (set (preorder t)) st st1" by blast
  note fl = removalFrameD [OF f1]
  have tr: "traverse removeObject_visit ?c st = Some (Return st1)"
    using traverse_removeObject_visit [OF sh helpersIn_mono [OF hi sub] reg] r1 by simp
  from parentOf_obj [OF po] obtain ob0 where ob0: "obj st ?c = Some ob0"
    "parent ob0 = Some ?sc" by blast
  have ob1: "obj st1 ?c = Some ob0" using removalFrame_obj [OF f1 cX] ob0 by simp
  let ?os1 = "objects (world st1)"
  let ?st2 = "setObjects (three_remove ?sc ?c ?os1) st1"
  let ?st' = "dispatch_sceneGraphChanged (dispatch (ObjectRemoved ?c) ?st2)"
  have res: "removeObject ?c st = Some (Return ?st')"
    by (simp add: removeObject_def ob0 tr ob1)
  have w': "objects (world ?st') = three_remove ?sc ?c ?os1"
    and h': "helpers ?st' = helpers st1"
    and fd': "fileDependencies ?st' = fileDependencies st1"
    and sh': "sceneHelpers ?st' = sceneHelpers st1"
    and em': "emitted ?st' = emitted st1 @ [ObjectRemoved ?c]
                @ (if sceneGraphChanged_active st1 then [SceneGraphChanged] else [])"
    by (simp_all add: dispatch_sceneGraphChanged_def dispatch_def setObjects_def)
  have eq: "unframed ?st' = unframed st"
    using removalFrame_unframed [OF f1]
    by (simp add: unframed_def dispatch_sceneGraphChanged_def dispatch_def setObjects_def)
  have ch': "childrenOf ?st' j = (if j = ?sc then remove1 ?c (childrenOf st1 ?sc) else childrenOf st1 j)" for j
    by (simp only: childrenOf_kids w' three_remove_kids)
  have chsc: "childrenOf st1 ?sc = childrenOf st ?sc" by (rule removalFrame_children [OF f1 ne])
  have pa': "parentOf ?st' j = (if j = ?c \<and> ?c \<in> set (childrenOf st ?sc) then None else parentOf st1 j)" for j
    by (simp add: parentOf_def w' three_remove_par childrenOf_kids [symmetric] chsc)
  have dep': "dependents ?st' k = dependents st1 k" for k by (simp add: dependents_def fd')
  have hin: "helpersIn X ?st'"
    unfolding helpersIn_def
  proof (intro conjI ballI allI impI)
    show "sceneHelpers ?st' \<notin> X" using hi1 unfolding helpersIn_def by (simp add: sh')
  next
    fix j h assume j: "j \<in> X" and h: "helpers ?st' j = Some h"
    then have h1: "helpers st1 j = Some h" by (simp add: h')
    note a = helpersInD(1) [OF hi1 j h1] and b = helpersInD(2) [OF hi1 j h1]
      and c = helpersInD(3) [OF hi1 j h1]
    from a cX have "h \<noteq> ?c" by blast
    show "h \<notin> X" by (rule a)
    show "parentOf ?st' h = Some (sceneHelpers ?st')"
      using b \<open>h \<noteq> ?c\<close> by (simp add: pa' sh')
    fix j2 assume "j2 \<in> X" "helpers ?st' j2 = Some h"
    with c show "j2 = j" by (simp add: h')
  qed
  from removalFrame_emitted [OF f1] obtain evs where
    evs: "emitted st1 = emitted st @ evs" "\<forall>e \<in> set evs. isHelperRemoved e" by blast
  have fr: "detachFrame X {?c} st ?st'"
    unfolding detachFrame_def
  proof (intro conjI)
    show "unframed ?st' = unframed st" by (rule eq)
    show "\<forall>j. j \<noteq> ?SH \<and> j \<noteq> ?sc \<longrightarrow> childrenOf ?st' j = childrenOf st j"
      using removalFrame_children [OF f1] by (simp add: ch')
    show "\<forall>j \<in> X. j \<notin> {?c} \<longrightarrow> parentOf ?st' j = parentOf st j"
      using removalFrame_obj [OF f1] by (simp add: pa') (simp add: parentOf_def par_def obj_def)
    show "\<forall>j. (obj ?st' j = None) = (obj st j = None)"
      using f1 unfolding removalFrame_def by (simp add: obj_def w' three_remove_defined)
    show "\<forall>k. set (dependents ?st' k) \<subseteq> set (dependents st k)"
      using removalFrame_dependents [OF f1] by (simp add: dep')
    show "dom (fileDependencies ?st') = dom (fileDependencies st)"
      using removalFrame_domain [OF f1] by (simp add: fd')
    show "\<exists>evs. emitted ?st' = emitted st @ evs \<and>
         (\<forall>e \<in> set evs. e \<noteq> SceneSet \<and>
            (e = SceneGraphChanged \<longrightarrow> sceneGraphChanged_active st))"
      using evs fl(5)
      by (intro exI [of _ "evs @ [ObjectRemoved ?c]
                @ (if sceneGraphChanged_active st1 then [SceneGraphChanged] else [])"])
         (auto simp: em' isHelperRemoved_def)
  qed
  have A: "childrenOf ?st' ?sc = remove1 ?c (childrenOf st ?sc)" by (simp add: ch' chsc)
  have B: "?c \<in> set (childrenOf st ?sc) \<longrightarrow> parentOf ?st' ?c = None" by (simp add: pa')
  have C: "\<forall>j \<in> X. j \<noteq> ?c \<and> j \<noteq> ?sc \<longrightarrow> obj ?st' j = obj st j"
    using removalFrame_obj [OF f1] by (simp add: obj_def w' three_remove_other)
  have D: "nodeLocal cls \<longrightarrow> releasedExactly (set (preorder t)) st ?st'"
    using e1 by (simp add: releasedExactly_def dep')
  show ?thesis by (intro exI [of _ ?st'] conjI res hin fr A B C D)
qed

lemma root_not_in_siblings:
  assumes "distinct (concat (map preorder (t # ts)))"
  shows "root t \<notin> set (map root ts)"
proof
  assume "root t \<in> set (map root ts)"
  then obtain v where v: "v \<in> set ts" "root v = root t" by auto
  from v(1) root_in_preorder [of v] have "root v \<in> set (concat (map preorder ts))" by auto
  moreover from assms have "set (preorder t) \<inter> set (concat (map preorder ts)) = {}" by simp
  ultimately show False using root_in_preorder [of t] v(2) by auto
qed

lemma roots_disjoint:
  assumes "distinct (concat (map preorder (t # ts)))" and "u \<in> set ts"
  shows "root u \<noteq> root t"
proof
  assume "root u = root t"
  with assms(2) have "root t \<in> set (map root ts)" by (metis image_eqI set_map)
  with root_not_in_siblings [OF assms(1)] show False by blast
qed

lemma removeAllChildren_returns:
  "childrenOf st (scene st) = map root ts \<Longrightarrow>
   \<forall>t \<in> set ts. shaped st t \<and> set (preorder t) \<subseteq> X \<and> parentOf st (root t) = Some (scene st) \<Longrightarrow>
   distinct (concat (map preorder ts)) \<Longrightarrow>
   scene st \<notin> set (concat (map preorder ts)) \<Longrightarrow>
   scene st \<noteq> sceneHelpers st \<Longrightarrow>
   helpersIn X st \<Longrightarrow>
   components st SceneReferenceComponent_componentName = Some cls \<Longrightarrow>
   \<exists>st'. removeAllChildren st = Some (Return st') \<and> helpersIn X st' \<and>
         detachFrame X (set (map root ts)) st st' \<and>
         childrenOf st' (scene st) = [] \<and> (\<forall>t \<in> set ts. parentOf st' (root t) = None) \<and>
         (nodeLocal cls \<longrightarrow> releasedExactly (set (concat (map preorder ts))) st st')"
proof (induction ts arbitrary: st)
  case Nil
  then show ?case
    by (simp add: removeAllChildren.simps [of st] detachFrame_refl releasedExactly_same)
next
  case (Cons t ts)
  let ?SR = SceneReferenceComponent_componentName
  let ?c = "root t"
  let ?sc = "scene st"
  from Cons.prems(2) have sh: "shaped st t" and sub: "set (preorder t) \<subseteq> X"
    and po: "parentOf st ?c = Some ?sc" by auto
  note hi = Cons.prems(6) and reg = Cons.prems(7) and ne = Cons.prems(5)
  have cin: "?c \<in> set (childrenOf st ?sc)" using Cons.prems(1) by simp
  from removeObject_child_of_scene [OF sh hi sub reg po ne] cin obtain sa where
    ra: "removeObject ?c st = Some (Return sa)" and hia: "helpersIn X sa"
    and fa: "detachFrame X {?c} st sa"
    and cha: "childrenOf sa ?sc = remove1 ?c (childrenOf st ?sc)"
    and pca: "parentOf sa ?c = None"
    and oba: "\<forall>j \<in> X. j \<noteq> ?c \<and> j \<noteq> ?sc \<longrightarrow> obj sa j = obj st j"
    and ea: "nodeLocal cls \<longrightarrow> releasedExactly (set (preorder t)) st sa" by blast
  note fl = unframed_fields [OF detachFrame_unframed [OF fa]]
  have sca: "scene sa = ?sc" by (rule fl(3))
  have sha: "sceneHelpers sa = sceneHelpers st" by (rule fl(2))
  have shX: "sceneHelpers st \<notin> X" using hi unfolding helpersIn_def by blast
  have p1: "childrenOf sa (scene sa) = map root ts"
    using cha Cons.prems(1) by (simp add: sca)
  have p2: "\<forall>u \<in> set ts. shaped sa u \<and> set (preorder u) \<subseteq> X \<and>
              parentOf sa (root u) = Some (scene sa)"
  proof
    fix u assume u: "u \<in> set ts"
    with Cons.prems(2) have shu: "shaped st u" and subu: "set (preorder u) \<subseteq> X"
      and pou: "parentOf st (root u) = Some ?sc" by auto
    have "childrenOf sa j = childrenOf st j" if "j \<in> set (preorder u)" for j
    proof (rule detachFrame_children [OF fa])
      from that subu shX show "j \<noteq> sceneHelpers st" by blast
      from that u Cons.prems(4) show "j \<noteq> ?sc" by auto
    qed
    then have "shaped sa u = shaped st u" by (rule shaped_cong)
    moreover have "parentOf sa (root u) = parentOf st (root u)"
    proof (rule detachFrame_parent [OF fa])
      from subu root_in_preorder [of u] show "root u \<in> X" by blast
      from roots_disjoint [OF Cons.prems(3) u] show "root u \<notin> {?c}" by simp
    qed
    ultimately show "shaped sa u \<and> set (preorder u) \<subseteq> X \<and>
              parentOf sa (root u) = Some (scene sa)"
      using shu subu pou by (simp add: sca)
  qed
  have p3: "distinct (concat (map preorder ts))" using Cons.prems(3) by simp
  have p4: "scene sa \<notin> set (concat (map preorder ts))" using Cons.prems(4) by (simp add: sca)
  have p5: "scene sa \<noteq> sceneHelpers sa" using ne by (simp add: sca sha)
  have p7: "components sa ?SR = Some cls" using reg by (simp add: fl(1))
  from Cons.IH [OF p1 p2 p3 p4 p5 hia p7] obtain st' where
    r: "removeAllChildren sa = Some (Return st')" and hi': "helpersIn X st'"
    and f': "detachFrame X (set (map root ts)) sa st'"
    and ch': "childrenOf st' (scene sa) = []"
    and pa': "\<forall>u \<in> set ts. parentOf st' (root u) = None"
    and e': "nodeLocal cls \<longrightarrow> releasedExactly (set (concat (map preorder ts))) sa st'"
    by blast
  have res: "removeAllChildren st = Some (Return st')"
    using Cons.prems(1) ra r by (simp add: removeAllChildren.simps [of st])
  have f: "detachFrame X (set (map root (t # ts))) st st'"
    using detachFrame_trans [OF fa f'] by simp
  have cX: "?c \<in> X" using sub root_in_preorder [of t] by blast
  have "parentOf st' ?c = parentOf sa ?c"
    by (rule detachFrame_parent [OF f' cX root_not_in_siblings [OF Cons.prems(3)]])
  with pca pa' have pa: "\<forall>u \<in> set (t # ts). parentOf st' (root u) = None" by simp
  have e: "nodeLocal cls \<longrightarrow> releasedExactly (set (concat (map preorder (t # ts)))) st st'"
  proof
    assume nl: "nodeLocal cls"
    have hr: "\<forall>j \<in> set (concat (map preorder ts)). \<forall>k.
        holdsReference sa j k = holdsReference st j k"
    proof (intro ballI allI)
      fix j k assume j: "j \<in> set (concat (map preorder ts))"
      with Cons.prems(2) have jX: "j \<in> X" by auto
      from j Cons.prems(3) have "j \<notin> set (preorder t)" by auto
      with root_in_preorder [of t] have jc: "j \<noteq> ?c" by auto
      from j Cons.prems(4) have jsc: "j \<noteq> ?sc" by auto
      from oba jX jc jsc have ob: "obj sa j = obj st j" by blast
      show "holdsReference sa j k = holdsReference st j k"
        by (rule holdsReference_cong, rule getComponent_local [OF fl(1) reg nl ob fl(6)])
    qed
    from ea e' nl have a: "releasedExactly (set (preorder t)) st sa"
      and b: "releasedExactly (set (concat (map preorder ts))) sa st'" by simp_all
    from releasedExactly_trans [OF a b hr]
    show "releasedExactly (set (concat (map preorder (t # ts)))) st st'" by simp
  qed
  have ch0: "childrenOf st' (scene st) = []" using ch' sca by simp
  show ?case
    by (intro exI [of _ st'] conjI res hi' f ch0 pa e)
qed

subsection \<open>clear\<close>

lemma registryFrame_refl: "registryFrame s s"
  by (simp add: registryFrame_def)

lemma registryFrame_trans:
  "registryFrame s s1 \<Longrightarrow> registryFrame s1 s2 \<Longrightarrow> registryFrame s s2"
  unfolding registryFrame_def by (intro conjI) (simp, simp, blast)

lemma removeHelper_registryFrame: "registryFrame s (stateOf (removeHelper i s))"
  by (simp add: removeHelper_def registryFrame_def dependents_def dispatch_def setObjects_def
      split: option.splits)

lemma removeSceneRefDependency_registryFrame:
  "registryFrame s (stateOf (removeSceneRefDependency i s))"
  by (auto simp: removeSceneRefDependency_def registryFrame_def dependents_def
      split: option.splits sum.splits)

lemma removeObject_visit_registryFrame: "registryFrame s (stateOf (removeObject_visit i s))"
proof (cases "removeHelper i s")
  case (Return s1)
  with removeHelper_registryFrame [of s i] have "registryFrame s s1" by simp
  from registryFrame_trans [OF this removeSceneRefDependency_registryFrame [of s1 i]] Return
  show ?thesis by (simp add: removeObject_visit_def)
next
  case (Throw e s1)
  with removeHelper_registryFrame [of s i] show ?thesis by (simp add: removeObject_visit_def)
qed

lemma traverseLoop_registryFrame:
  assumes cbf: "\<And>i s. registryFrame s (stateOf (cb i s))"
    and t: "traverseLoop cb this i l st = Some r"
  shows "registryFrame st (stateOf r)"
proof -
  have "cb = cb \<longrightarrow> registryFrame st (stateOf r)"
  proof (rule traverseLoop.raw_induct
      [where P = "\<lambda>cb' this i l st r. cb' = cb \<longrightarrow> registryFrame st (stateOf r)", OF _ t],
      goal_cases)
    case (1 f cb' this i l st y)
    show ?case
    proof
      assume c: "cb' = cb"
      note IH = 1(1) [rule_format]
      note body = 1(2) [unfolded c]
      show "registryFrame st (stateOf y)"
      proof (cases "i < l \<and> i < length (childrenOf st this)")
        case False
        with body show ?thesis by (auto simp: registryFrame_refl split: if_splits)
      next
        case True
        let ?c = "childrenOf st this ! i"
        show ?thesis
        proof (cases "cb ?c st")
          case (Throw e s)
          with body True cbf [of st ?c] show ?thesis by auto
        next
          case (Return st1)
          with cbf [of st ?c] have f1: "registryFrame st st1" by simp
          from body True Return obtain r1 where
            r1: "f cb ?c 0 (length (childrenOf st1 ?c)) st1 = Some r1"
            and k: "(case r1 of Throw e s \<Rightarrow> Some (Throw e s)
                     | Return st2 \<Rightarrow> f cb this (Suc i) l st2) = Some y"
            by (auto simp: bind_eq_Some_conv)
          from 1(1) [OF r1] have f2: "registryFrame st1 (stateOf r1)" by simp
          show ?thesis
          proof (cases r1)
            case (Throw e s)
            with k f1 f2 show ?thesis by (auto intro: registryFrame_trans)
          next
            case (Return st2)
            with k have "f cb this (Suc i) l st2 = Some y" by simp
            from 1(1) [OF this] have "registryFrame st2 (stateOf y)" by simp
            with f1 f2 Return show ?thesis by (auto intro: registryFrame_trans)
          qed
        qed
      qed
    qed
  qed
  then show ?thesis by simp
qed

lemma traverse_registryFrame:
  assumes cbf: "\<And>i s. registryFrame s (stateOf (cb i s))"
    and t: "traverse cb this st = Some r"
  shows "registryFrame st (stateOf r)"
proof (cases "cb this st")
  case (Throw e s)
  with t cbf [of st this] show ?thesis by (simp add: traverse_def)
next
  case (Return st1)
  with t have "traverseLoop cb this 0 (length (childrenOf st1 this)) st1 = Some r"
    by (simp add: traverse_def)
  from traverseLoop_registryFrame [OF cbf this] cbf [of st this] Return
  show ?thesis by (auto intro: registryFrame_trans)
qed

lemma registryFrame_same:
  "components s' = components s \<Longrightarrow> fileDependencies s' = fileDependencies s \<Longrightarrow> registryFrame s s'"
  by (simp add: registryFrame_def dependents_def)

lemma removeObject_registryFrame:
  assumes "removeObject object st = Some r"
  shows "registryFrame st (stateOf r)"
proof (cases "obj st object")
  case None
  with assms show ?thesis by (auto simp: removeObject_def registryFrame_refl)
next
  case (Some ob)
  show ?thesis
  proof (cases "parent ob")
    case None
    with assms Some show ?thesis by (auto simp: removeObject_def registryFrame_refl)
  next
    case (Some p0)
    with assms \<open>obj st object = Some ob\<close> obtain r1 where
      t: "traverse removeObject_visit object st = Some r1"
      and k: "(case r1 of Throw e s \<Rightarrow> Some (Throw e s)
               | Return st1 \<Rightarrow>
                   (case obj st1 object of
                      None \<Rightarrow> Some (Throw TypeError st1)
                    | Some ob1 \<Rightarrow>
                        (case parent ob1 of
                           None \<Rightarrow> Some (Throw TypeError st1)
                         | Some p \<Rightarrow>
                             Some (Return (dispatch_sceneGraphChanged
                               (dispatch (ObjectRemoved object)
                                 (setObjects (three_remove p object (objects (world st1))) st1))))))) = Some r"
      by (auto simp: removeObject_def bind_eq_Some_conv)
    from traverse_registryFrame [OF removeObject_visit_registryFrame t]
    have f1: "registryFrame st (stateOf r1)" .
    show ?thesis
    proof (cases r1)
      case (Throw e s)
      with k f1 show ?thesis by auto
    next
      case (Return st1)
      have "registryFrame st1 (stateOf r)"
        using k Return
        by (auto simp: registryFrame_refl dispatch_sceneGraphChanged_def dispatch_def
            setObjects_def intro!: registryFrame_same split: option.splits)
      with f1 Return show ?thesis by (auto intro: registryFrame_trans)
    qed
  qed
qed

lemma removeAllChildren_registryFrame:
  assumes "removeAllChildren st = Some r"
  shows "registryFrame st (stateOf r)"
proof (rule removeAllChildren.raw_induct
    [where P = "\<lambda>st r. registryFrame st (stateOf r)", OF _ assms], goal_cases)
  case (1 f st y)
  show ?case
  proof (cases "childrenOf st (scene st)")
    case Nil
    with 1(2) show ?thesis by (auto simp: registryFrame_refl)
  next
    case (Cons c cs)
    with 1(2) obtain r1 where r1: "removeObject c st = Some r1"
      and k: "(case r1 of Throw e s \<Rightarrow> Some (Throw e s) | Return st1 \<Rightarrow> f st1) = Some y"
      by (auto simp: bind_eq_Some_conv)
    note f1 = removeObject_registryFrame [OF r1]
    show ?thesis
    proof (cases r1)
      case (Throw e s)
      with k f1 show ?thesis by auto
    next
      case (Return st1)
      with k have "f st1 = Some y" by simp
      from 1(1) [OF this] f1 Return show ?thesis by (auto intro: registryFrame_trans)
    qed
  qed
qed

lemma kids_updObj_same:
  "(\<And>ob. children (f ob) = children ob) \<Longrightarrow> kids (updObj i f os) j = kids os j"
  by (simp add: kids_def updObj_apply split: option.splits)

lemma par_updObj_same:
  "(\<And>ob. parent (f ob) = parent ob) \<Longrightarrow> par (updObj i f os) j = par os j"
  by (simp add: par_def updObj_apply split: option.splits)

lemma parentOf_par: "parentOf st i = par (objects (world st)) i"
  by (simp add: parentOf_def)

lemma clear_prelude_fields:
  "components (clear_prelude st) = components st"
  "fileDependencies (clear_prelude st) = fileDependencies st"
  "helpers (clear_prelude st) = helpers st"
  "scene (clear_prelude st) = scene st"
  "sceneHelpers (clear_prelude st) = sceneHelpers st"
  "childrenOf (clear_prelude st) j = childrenOf st j"
  "parentOf (clear_prelude st) j = parentOf st j"
  by (simp_all add: clear_prelude_def Let_def camera_copy_default_def storage_clear_def
      history_clear_def setObjects_def childrenOf_kids parentOf_par kids_updObj_same
      par_updObj_same)

lemma clear_unfold:
  "clear st =
     (case obj (camera_copy_default (storage_clear (history_clear st))) (scene st) of
        None \<Rightarrow> Some (Throw TypeError (camera_copy_default (storage_clear (history_clear st))))
      | Some sc \<Rightarrow>
          (case background sc of
             None \<Rightarrow> Some (Throw TypeError (camera_copy_default (storage_clear (history_clear st))))
           | Some b \<Rightarrow>
               Option.bind (removeAllChildren (clear_prelude st))
                 (\<lambda>r. case r of
                    Throw e s \<Rightarrow> Some (Throw e s)
                  | Return st2 \<Rightarrow>
                      Some (Return (dispatch EditorCleared
                        (deselect (st2\<lparr>geometries := Map.empty, materials := Map.empty,
                            textures := Map.empty, scripts := Map.empty\<rparr>)))))))"
proof -
  have "scene (camera_copy_default (storage_clear (history_clear st))) = scene st"
    by (simp add: camera_copy_default_def storage_clear_def history_clear_def setObjects_def)
  then show ?thesis
    unfolding clear_def clear_prelude_def Let_def by (simp only:)
qed

lemma clear_background:
  assumes "obj st (scene st) = Some sc" and "background sc = Some b"
  shows "\<exists>sc'. obj (camera_copy_default (storage_clear (history_clear st))) (scene st) = Some sc'
           \<and> background sc' = Some b"
  using assms
  by (auto simp: camera_copy_default_def storage_clear_def history_clear_def setObjects_def
      obj_def updObj_apply)

lemma sceneTree_cong:
  assumes "scene s' = scene s" and "sceneHelpers s' = sceneHelpers s"
    and c: "\<And>j. childrenOf s' j = childrenOf s j" and p: "\<And>j. parentOf s' j = parentOf s j"
  shows "sceneTree s' ts = sceneTree s ts"
proof -
  have "shaped s' t = shaped s t" for t by (rule shaped_cong) (rule c)
  then show ?thesis by (simp add: sceneTree_def assms)
qed

lemma helpersIn_cong_parent:
  assumes "sceneHelpers s' = sceneHelpers s" and "helpers s' = helpers s"
    and "\<And>j. parentOf s' j = parentOf s j"
  shows "helpersIn X s' = helpersIn X s"
  by (simp add: helpersIn_def assms)

lemma sceneTreeD:
  assumes "sceneTree st ts"
  shows "childrenOf st (scene st) = map root ts"
    and "\<forall>t \<in> set ts. shaped st t \<and> parentOf st (root t) = Some (scene st)"
    and "distinct (concat (map preorder ts))"
    and "scene st \<notin> set (concat (map preorder ts))"
    and "scene st \<noteq> sceneHelpers st"
  using assms unfolding sceneTree_def by simp_all

lemma removeAllChildren_sceneTree:
  assumes st: "sceneTree st ts"
    and hi: "helpersIn X st" and sub: "set (concat (map preorder ts)) \<subseteq> X"
    and reg: "components st SceneReferenceComponent_componentName = Some cls"
  shows "\<exists>st'. removeAllChildren st = Some (Return st') \<and> helpersIn X st' \<and>
         detachFrame X (set (map root ts)) st st' \<and>
         childrenOf st' (scene st) = [] \<and> (\<forall>t \<in> set ts. parentOf st' (root t) = None) \<and>
         (nodeLocal cls \<longrightarrow> releasedExactly (set (concat (map preorder ts))) st st')"
proof (rule removeAllChildren_returns [OF sceneTreeD(1) [OF st] _ sceneTreeD(3,4,5) [OF st] hi reg])
  show "\<forall>t \<in> set ts. shaped st t \<and> set (preorder t) \<subseteq> X \<and>
          parentOf st (root t) = Some (scene st)"
    using sceneTreeD(2) [OF st] sub by auto
qed

lemma clear_prelude_store:
  "instances (world (clear_prelude st)) = instances (world st)"
  "j \<noteq> scene st \<Longrightarrow> j \<noteq> camera st \<Longrightarrow> obj (clear_prelude st) j = obj st j"
  by (simp_all add: clear_prelude_def Let_def camera_copy_default_def storage_clear_def
      history_clear_def setObjects_def obj_def updObj_apply split: option.splits)

text \<open>
  Claim C10. However clear ends (with a result or with an exception), the component
  registry is as before, the dependency tracker has the same resource ids as before and
  no dependents that it did not have; when clear returns, the geometry, material, texture
  and script tables are empty. And clear does return when the scene root has a background
  and its children unfold to trees whose helpers are in place, with the scene-reference
  type registered. Then (for a class that reads the node only, the camera not being in the
  scene) the dependents that are gone are exactly the nodes below the scene root that
  held a scene reference to the resource id they were listed under: every other
  dependent, such as the scene root itself, is still listed.
\<close>

theorem clear_effects:
  "(\<forall>r. clear st = Some r \<longrightarrow>
      components (stateOf r) = components st \<and>
      dom (fileDependencies (stateOf r)) = dom (fileDependencies st) \<and>
      (\<forall>k. set (dependents (stateOf r) k) \<subseteq> set (dependents st k)) \<and>
      (\<forall>st'. r = Return st' \<longrightarrow>
         geometries st' = Map.empty \<and> materials st' = Map.empty \<and>
         textures st' = Map.empty \<and> scripts st' = Map.empty)) \<and>
   (sceneTree st ts \<and> helpersIn (set (concat (map preorder ts))) st \<and>
    components st SceneReferenceComponent_componentName = Some cls \<and>
    (\<exists>sc b. obj st (scene st) = Some sc \<and> background sc = Some b) \<longrightarrow>
      (\<exists>st'. clear st = Some (Return st') \<and>
         (nodeLocal cls \<and> camera st \<notin> set (concat (map preorder ts)) \<longrightarrow>
            (\<forall>k j. (j \<in> set (dependents st' k)) =
               (j \<in> set (dependents st k) \<and>
                \<not> (j \<in> set (concat (map preorder ts)) \<and> holdsReference st j k))))))"
proof (rule conjI, intro allI impI)
  fix r assume c: "clear st = Some r"
  let ?s1 = "camera_copy_default (storage_clear (history_clear st))"
  have f1: "registryFrame st ?s1"
    by (rule registryFrame_same)
       (simp_all add: camera_copy_default_def storage_clear_def history_clear_def setObjects_def)
  have fp: "registryFrame st (clear_prelude st)"
    by (rule registryFrame_same) (simp_all add: clear_prelude_fields)
  have "registryFrame st (stateOf r) \<and>
        (\<forall>st'. r = Return st' \<longrightarrow>
         geometries st' = Map.empty \<and> materials st' = Map.empty \<and>
         textures st' = Map.empty \<and> scripts st' = Map.empty)"
  proof (cases "obj ?s1 (scene st)")
    case None
    with c f1 show ?thesis by (auto simp: clear_unfold)
  next
    case (Some sc)
    show ?thesis
    proof (cases "background sc")
      case None
      with c f1 Some show ?thesis by (auto simp: clear_unfold)
    next
      case (Some b)
      with c \<open>obj ?s1 (scene st) = Some sc\<close> obtain r1 where
        r1: "removeAllChildren (clear_prelude st) = Some r1"
        and k: "(case r1 of Throw e s \<Rightarrow> Some (Throw e s)
                 | Return st2 \<Rightarrow>
                     Some (Return (dispatch EditorCleared
                       (deselect (st2\<lparr>geometries := Map.empty, materials := Map.empty,
                           textures := Map.empty, scripts := Map.empty\<rparr>))))) = Some r"
        by (auto simp: clear_unfold bind_eq_Some_conv)
      note f2 = registryFrame_trans [OF fp removeAllChildren_registryFrame [OF r1]]
      show ?thesis
      proof (cases r1)
        case (Throw e s)
        with k f2 show ?thesis by auto
      next
        case (Return st2)
        let ?st' = "dispatch EditorCleared
                       (deselect (st2\<lparr>geometries := Map.empty, materials := Map.empty,
                           textures := Map.empty, scripts := Map.empty\<rparr>))"
        from k Return have r: "r = Return ?st'" by simp
        have "registryFrame st2 ?st'"
          by (rule registryFrame_same)
             (simp_all add: dispatch_def deselect_def select_def)
        with f2 Return have "registryFrame st ?st'" by (auto intro: registryFrame_trans)
        moreover have "geometries ?st' = Map.empty \<and> materials ?st' = Map.empty \<and>
             textures ?st' = Map.empty \<and> scripts ?st' = Map.empty"
          by (simp add: dispatch_def deselect_def select_def)
        ultimately show ?thesis using r by simp
      qed
    qed
  qed
  then show "components (stateOf r) = components st \<and>
      dom (fileDependencies (stateOf r)) = dom (fileDependencies st) \<and>
      (\<forall>k. set (dependents (stateOf r) k) \<subseteq> set (dependents st k)) \<and>
      (\<forall>st'. r = Return st' \<longrightarrow>
         geometries st' = Map.empty \<and> materials st' = Map.empty \<and>
         textures st' = Map.empty \<and> scripts st' = Map.empty)"
    unfolding registryFrame_def by blast
next
  let ?SR = SceneReferenceComponent_componentName
  let ?X = "set (concat (map preorder ts))"
  show "sceneTree st ts \<and> helpersIn ?X st \<and> components st ?SR = Some cls \<and>
    (\<exists>sc b. obj st (scene st) = Some sc \<and> background sc = Some b) \<longrightarrow>
      (\<exists>st'. clear st = Some (Return st') \<and>
         (nodeLocal cls \<and> camera st \<notin> ?X \<longrightarrow>
            (\<forall>k j. (j \<in> set (dependents st' k)) =
               (j \<in> set (dependents st k) \<and> \<not> (j \<in> ?X \<and> holdsReference st j k)))))"
  proof
    assume a: "sceneTree st ts \<and> helpersIn ?X st \<and> components st ?SR = Some cls \<and>
      (\<exists>sc b. obj st (scene st) = Some sc \<and> background sc = Some b)"
    then obtain sc b where tr: "sceneTree st ts" and hi: "helpersIn ?X st"
      and reg: "components st ?SR = Some cls"
      and sc: "obj st (scene st) = Some sc" "background sc = Some b" by auto
    let ?p = "clear_prelude st"
    have trp: "sceneTree ?p ts"
      using tr sceneTree_cong [of ?p st ts] by (simp add: clear_prelude_fields)
    have hip: "helpersIn ?X ?p"
      using hi helpersIn_cong_parent [of ?p st ?X] by (simp add: clear_prelude_fields)
    have regp: "components ?p ?SR = Some cls" using reg by (simp add: clear_prelude_fields)
    from removeAllChildren_sceneTree [OF trp hip _ regp] obtain st2 where
      r2: "removeAllChildren ?p = Some (Return st2)"
      and e2: "nodeLocal cls \<longrightarrow> releasedExactly ?X ?p st2" by blast
    from clear_background [OF sc] obtain sc' where
      sc': "obj (camera_copy_default (storage_clear (history_clear st))) (scene st) = Some sc'"
        "background sc' = Some b" by blast
    let ?st' = "dispatch EditorCleared
                   (deselect (st2\<lparr>geometries := Map.empty, materials := Map.empty,
                       textures := Map.empty, scripts := Map.empty\<rparr>))"
    have res: "clear st = Some (Return ?st')"
      by (simp add: clear_unfold sc' r2)
    have dep': "dependents ?st' k = dependents st2 k" for k
      by (simp add: dependents_def dispatch_def deselect_def select_def)
    have depp: "dependents ?p k = dependents st k" for k
      by (simp add: dependents_def clear_prelude_fields)
    have ex: "nodeLocal cls \<and> camera st \<notin> ?X \<longrightarrow> releasedExactly ?X st ?st'"
    proof
      assume h: "nodeLocal cls \<and> camera st \<notin> ?X"
      then have nl: "nodeLocal cls" and cam: "camera st \<notin> ?X" by simp_all
      from e2 nl have e: "releasedExactly ?X ?p st2" by simp
      have hr: "\<forall>j \<in> ?X. \<forall>k. holdsReference ?p j k = holdsReference st j k"
      proof (intro ballI allI)
        fix j k assume j: "j \<in> ?X"
        with sceneTreeD(4) [OF tr] cam have "j \<noteq> scene st" "j \<noteq> camera st" by auto
        then have ob: "obj ?p j = obj st j" by (rule clear_prelude_store(2))
        show "holdsReference ?p j k = holdsReference st j k"
          by (rule holdsReference_cong,
              rule getComponent_local [OF clear_prelude_fields(1) reg nl ob clear_prelude_store(1)])
      qed
      show "releasedExactly ?X st ?st'"
        by (rule releasedExactly_cong [OF e depp dep' hr])
    qed
    then have "nodeLocal cls \<and> camera st \<notin> ?X \<longrightarrow>
            (\<forall>k j. (j \<in> set (dependents ?st' k)) =
               (j \<in> set (dependents st k) \<and> \<not> (j \<in> ?X \<and> holdsReference st j k)))"
      unfolding releasedExactly_def .
    with res show "\<exists>st'. clear st = Some (Return st') \<and>
         (nodeLocal cls \<and> camera st \<notin> ?X \<longrightarrow>
            (\<forall>k j. (j \<in> set (dependents st' k)) =
               (j \<in> set (dependents st k) \<and> \<not> (j \<in> ?X \<and> holdsReference st j k))))"
      by (intro exI [of _ ?st'] conjI)
  qed
qed

lemma fixture_light_scene_tables_store:
  "childrenOf fixture_light_scene_tables j = childrenOf fixture_light_scene j"
  "parentOf fixture_light_scene_tables j = parentOf fixture_light_scene j"
  "obj fixture_light_scene_tables j = obj fixture_light_scene j"
  "scene fixture_light_scene_tables = 0"
  "sceneHelpers fixture_light_scene_tables = 1"
  "camera fixture_light_scene_tables = 2"
  "helpers fixture_light_scene_tables = [3 \<mapsto> 5]"
  "components fixture_light_scene_tables = components fixture_light_scene"
  "dependents fixture_light_scene_tables (Some ''a'') = [4, 0]"
  "dependents fixture_light_scene_tables (Some ''b'') = [4]"
  by (simp_all add: fixture_light_scene_tables_def childrenOf_def parentOf_def obj_def
      fixture_light_scene_def dependents_def)

lemma fixture_light_scene_tables_reads:
  "holdsReference fixture_light_scene_tables 4 (Some ''a'')"
  "\<not> holdsReference fixture_light_scene_tables 4 (Some ''b'')"
  by (simp_all add: holdsReference_def fixture_light_scene_tables_def fixture_light_scene_def
      fixture_class_def getComponent_def getProperty_def
      SceneReferenceComponent_componentName_def)

theorem clear_effects_witness:
  "sceneTree fixture_light_scene_tables [Tree 3 [Tree 4 []]] \<and>
   helpersIn (set (concat (map preorder [Tree 3 [Tree 4 []]]))) fixture_light_scene_tables \<and>
   geometries fixture_light_scene_tables ''g1'' \<noteq> None \<and>
   dependents fixture_light_scene_tables (Some ''a'') = [4, 0] \<and>
   dependents fixture_light_scene_tables (Some ''b'') = [4] \<and>
   (\<exists>st'. clear fixture_light_scene_tables = Some (Return st') \<and>
      components st' = components fixture_light_scene_tables \<and>
      dom (fileDependencies st') = dom (fileDependencies fixture_light_scene_tables) \<and>
      geometries st' = Map.empty \<and> materials st' = Map.empty \<and>
      textures st' = Map.empty \<and> scripts st' = Map.empty \<and>
      4 \<notin> set (dependents st' (Some ''a'')) \<and> 0 \<in> set (dependents st' (Some ''a'')) \<and>
      4 \<in> set (dependents st' (Some ''b'')))"
proof -
  let ?fx = fixture_light_scene_tables
  let ?ts = "[Tree 3 [Tree 4 []]]"
  let ?cls = "fixture_class ''scene-reference''"
  have tr: "sceneTree ?fx ?ts"
    by (simp add: sceneTree_def fixture_light_scene_tables_store fixture_light_scene_store)
  have hi: "helpersIn (set (concat (map preorder ?ts))) ?fx"
    by (simp add: helpersIn_def fixture_light_scene_tables_store fixture_light_scene_store)
  have reg: "components ?fx SceneReferenceComponent_componentName = Some ?cls"
    by (simp add: fixture_light_scene_tables_store fixture_light_scene_store)
  have bg: "\<exists>sc b. obj ?fx (scene ?fx) = Some sc \<and> background sc = Some b"
    by (simp add: fixture_light_scene_tables_store fixture_light_scene_store fixture_object_def)
  have g: "geometries ?fx ''g1'' \<noteq> None" by (simp add: fixture_light_scene_tables_def)
  have cam: "nodeLocal ?cls \<and> camera ?fx \<notin> set (concat (map preorder ?ts))"
    by (simp add: nodeLocal_fixture_class fixture_light_scene_tables_store)
  from clear_effects [of ?fx ?ts ?cls] tr hi reg bg cam
  obtain st' where r: "clear ?fx = Some (Return st')"
    and d: "\<forall>k j. (j \<in> set (dependents st' k)) =
               (j \<in> set (dependents ?fx k) \<and>
                \<not> (j \<in> set (concat (map preorder ?ts)) \<and> holdsReference ?fx j k))"
    by blast
  from clear_effects [of ?fx ?ts ?cls] r
  have t: "components (stateOf (Return st')) = components ?fx \<and>
      dom (fileDependencies (stateOf (Return st'))) = dom (fileDependencies ?fx) \<and>
      geometries st' = Map.empty \<and> materials st' = Map.empty \<and>
      textures st' = Map.empty \<and> scripts st' = Map.empty" by blast
  have d1: "4 \<notin> set (dependents st' (Some ''a''))"
    by (simp add: d fixture_light_scene_tables_reads)
  have d2: "0 \<in> set (dependents st' (Some ''a''))"
    by (simp add: d fixture_light_scene_tables_store)
  have d3: "4 \<in> set (dependents st' (Some ''b''))"
    by (simp add: d fixture_light_scene_tables_store fixture_light_scene_tables_reads)
  from tr hi g r t d1 d2 d3 show ?thesis
    by (simp add: fixture_light_scene_tables_store)
qed

subsection \<open>Adding a subtree\<close>

lemma addHelper_create:
  assumes "helpers st object = None" and "obj st object = Some ob"
    and "helperKind (kind ob) = Some hk"
  shows "addHelper object r st =
     dispatch (HelperAdded (nextId (world st)))
       (st\<lparr>world := (world st)\<lparr>nextId := Suc (Suc (nextId (world st))),
                               objects := helperStore hk r (sceneHelpers st) (world st)\<rparr>,
           helpers := (helpers st)(r \<mapsto> nextId (world st))\<rparr>)"
  using assms by (simp add: addHelper_def newObject_def Let_def helperStore_def)

lemma addHelper_skip:
  assumes "helpers st object \<noteq> None \<or> obj st object = None \<or>
           (\<exists>ob. obj st object = Some ob \<and> helperKind (kind ob) = None)"
  shows "addHelper object r st = st"
  using assms by (auto simp: addHelper_def)

lemma addHelper_cases:
  obtains (skip) "addHelper object r st = st"
  | (create) ob hk where "helpers st object = None" "obj st object = Some ob"
      "helperKind (kind ob) = Some hk"
proof (cases "helpers st object = None")
  case False
  then show ?thesis using skip addHelper_skip [of st object r] by blast
next
  case True
  show ?thesis
  proof (cases "obj st object")
    case None
    then show ?thesis using skip addHelper_skip [of st object r] by blast
  next
    case (Some ob)
    show ?thesis
    proof (cases "helperKind (kind ob)")
      case None
      with Some show ?thesis using skip addHelper_skip [of st object r] by blast
    next
      case (Some hk)
      with True \<open>obj st object = Some ob\<close> show ?thesis using create by blast
    qed
  qed
qed

lemma helperStore_base:
  "objects (snd (newObject Mesh (snd (newObject hk w)))) j
     = (if j = Suc (nextId w) then Some \<lparr>uuid = uuids w (Suc (nextId w)), obj_name = [], kind = Mesh,
            parent = None, children = [], obj_geometry = None, obj_material = None,
            background = None, fog = None, userData = emptyUserData\<rparr>
        else if j = nextId w then Some \<lparr>uuid = uuids w (nextId w), obj_name = [], kind = hk,
            parent = None, children = [], obj_geometry = None, obj_material = None,
            background = None, fog = None, userData = emptyUserData\<rparr>
        else objects w j)"
  by (simp add: newObject_def)

lemma helperStore_other:
  assumes "j \<noteq> nextId w" and "j \<noteq> Suc (nextId w)" and "j \<noteq> sh"
  shows "helperStore hk r sh w j = objects w j"
proof -
  let ?n = "nextId w"
  let ?os2 = "updObj (Suc ?n) (\<lambda>pob. pob\<lparr>obj_name := ''picker'',
                            obj_geometry := Some picker_geometry,
                            obj_material := Some picker_material,
                            userData := (userData pob)\<lparr>ud_selectionRoot := Some r\<rparr>\<rparr>)
             (objects (snd (newObject Mesh (snd (newObject hk w)))))"
  let ?os4 = "three_add ?n (Suc ?n) ?os2"
  have p2: "par ?os2 (Suc ?n) = None" "par ?os2 ?n = None"
    by (simp_all add: par_def updObj_apply helperStore_base)
  have p4: "par ?os4 ?n = None" by (simp add: three_add_par p2)
  have "helperStore hk r sh w j = ?os4 j"
    unfolding helperStore_def using assms p4 by (intro three_add_other) simp_all
  also have "\<dots> = ?os2 j" using assms p2 by (intro three_add_other) simp_all
  also have "\<dots> = objects w j" using assms by (simp add: updObj_apply helperStore_base)
  finally show ?thesis .
qed

lemma helperStore_defined:
  "(helperStore hk r sh w j = None) = (objects w j = None \<and> j \<noteq> nextId w \<and> j \<noteq> Suc (nextId w))"
  by (simp add: helperStore_def three_add_defined updObj_defined helperStore_base)

lemma helperStore_par:
  "par (helperStore hk r sh w) j =
     (if j = nextId w then (if sh = nextId w then None else Some sh)
      else if j = Suc (nextId w) then Some (nextId w)
      else par (objects w) j)"
proof -
  let ?n = "nextId w"
  let ?os2 = "updObj (Suc ?n) (\<lambda>pob. pob\<lparr>obj_name := ''picker'',
                            obj_geometry := Some picker_geometry,
                            obj_material := Some picker_material,
                            userData := (userData pob)\<lparr>ud_selectionRoot := Some r\<rparr>\<rparr>)
             (objects (snd (newObject Mesh (snd (newObject hk w)))))"
  have p2: "par ?os2 j = (if j = ?n \<or> j = Suc ?n then None else par (objects w) j)" for j
    by (simp add: par_def updObj_apply helperStore_base)
  have d2: "?os2 (Suc ?n) \<noteq> None" "?os2 ?n \<noteq> None"
    by (simp_all add: updObj_apply helperStore_base)
  show ?thesis
    unfolding helperStore_def
    by (simp add: three_add_par p2 d2 three_add_defined)
qed

lemma unframedAdd_selectors:
  "components (unframedAdd s) = components s" "sceneHelpers (unframedAdd s) = sceneHelpers s"
  "scene (unframedAdd s) = scene s" "camera (unframedAdd s) = camera s"
  "sceneGraphChanged_active (unframedAdd s) = sceneGraphChanged_active s"
  "instances (world (unframedAdd s)) = instances (world s)"
  "fileDependencies (unframedAdd s) = fileDependencies s"
  "textures (unframedAdd s) = textures s" "scripts (unframedAdd s) = scripts s"
  "selected (unframedAdd s) = selected s" "asyncCalls (unframedAdd s) = asyncCalls s"
  "history (unframedAdd s) = history s" "storage (unframedAdd s) = storage s"
  by (simp_all add: unframedAdd_def)

lemma unframedAdd_fields:
  assumes e: "unframedAdd s' = unframedAdd s"
  shows "components s' = components s" and "sceneHelpers s' = sceneHelpers s"
    and "scene s' = scene s" and "camera s' = camera s"
    and "sceneGraphChanged_active s' = sceneGraphChanged_active s"
    and "instances (world s') = instances (world s)"
    and "fileDependencies s' = fileDependencies s"
    and "textures s' = textures s" and "scripts s' = scripts s"
    and "selected s' = selected s" and "asyncCalls s' = asyncCalls s"
    and "history s' = history s" and "storage s' = storage s"
proof -
  show "components s' = components s"
    using arg_cong [OF e, of components] by (simp only: unframedAdd_selectors)
  show "sceneHelpers s' = sceneHelpers s"
    using arg_cong [OF e, of sceneHelpers] by (simp only: unframedAdd_selectors)
  show "scene s' = scene s"
    using arg_cong [OF e, of scene] by (simp only: unframedAdd_selectors)
  show "camera s' = camera s"
    using arg_cong [OF e, of camera] by (simp only: unframedAdd_selectors)
  show "sceneGraphChanged_active s' = sceneGraphChanged_active s"
    using arg_cong [OF e, of sceneGraphChanged_active] by (simp only: unframedAdd_selectors)
  show "instances (world s') = instances (world s)"
    using arg_cong [OF e, of "\<lambda>s. instances (world s)"] by (simp only: unframedAdd_selectors)
  show "fileDependencies s' = fileDependencies s"
    using arg_cong [OF e, of fileDependencies] by (simp only: unframedAdd_selectors)
  show "textures s' = textures s"
    using arg_cong [OF e, of textures] by (simp only: unframedAdd_selectors)
  show "scripts s' = scripts s"
    using arg_cong [OF e, of scripts] by (simp only: unframedAdd_selectors)
  show "selected s' = selected s"
    using arg_cong [OF e, of selected] by (simp only: unframedAdd_selectors)
  show "asyncCalls s' = asyncCalls s"
    using arg_cong [OF e, of asyncCalls] by (simp only: unframedAdd_selectors)
  show "history s' = history s"
    using arg_cong [OF e, of history] by (simp only: unframedAdd_selectors)
  show "storage s' = storage s"
    using arg_cong [OF e, of storage] by (simp only: unframedAdd_selectors)
qed

lemma addFrameD:
  assumes "addFrame r s s'"
  shows "unframedAdd s' = unframedAdd s"
    and "nextId (world s) \<le> nextId (world s')"
    and "\<forall>j. j < nextId (world s) \<and> j \<noteq> sceneHelpers s \<longrightarrow> obj s' j = obj s j"
    and "\<forall>j. j < nextId (world s) \<longrightarrow> parentOf s' j = parentOf s j"
    and "\<forall>j. obj s j \<noteq> None \<longrightarrow> obj s' j \<noteq> None"
    and "dom (geometries s) \<subseteq> dom (geometries s')"
    and "dom (materials s) \<subseteq> dom (materials s')"
    and "\<forall>i. i \<noteq> r \<longrightarrow> helpers s' i = helpers s i"
    and "helpers s' r = helpers s r \<or>
       (\<exists>h. helpers s' r = Some h \<and> nextId (world s) \<le> h \<and> h < nextId (world s') \<and>
            (sceneHelpers s < nextId (world s) \<longrightarrow> parentOf s' h = Some (sceneHelpers s)))"
    and "\<exists>evs. emitted s' = emitted s @ evs \<and> (\<forall>e \<in> set evs. isHelperAdded e)"
  using assms unfolding addFrame_def by simp_all

lemma addFrame_refl: "addFrame r s s"
  unfolding addFrame_def by (intro conjI exI [of _ "[]"]) simp_all

lemma addFrame_trans:
  assumes a: "addFrame r s s1" and b: "addFrame r s1 s2"
  shows "addFrame r s s2"
proof -
  note A = addFrameD [OF a] and B = addFrameD [OF b]
  note f1 = unframedAdd_fields [OF A(1)]
  have n: "nextId (world s) \<le> nextId (world s1)" "nextId (world s1) \<le> nextId (world s2)"
    by (rule A(2), rule B(2))
  have c1: "unframedAdd s2 = unframedAdd s" using A(1) B(1) by simp
  have c2: "nextId (world s) \<le> nextId (world s2)" using n by simp
  have c3: "\<forall>j. j < nextId (world s) \<and> j \<noteq> sceneHelpers s \<longrightarrow> obj s2 j = obj s j"
  proof (intro allI impI)
    fix j assume j: "j < nextId (world s) \<and> j \<noteq> sceneHelpers s"
    with n have "j < nextId (world s1) \<and> j \<noteq> sceneHelpers s1" by (simp add: f1(2))
    with B(3) have "obj s2 j = obj s1 j" by blast
    with A(3) j show "obj s2 j = obj s j" by simp
  qed
  have c4: "\<forall>j. j < nextId (world s) \<longrightarrow> parentOf s2 j = parentOf s j"
  proof (intro allI impI)
    fix j assume j: "j < nextId (world s)"
    with n have "j < nextId (world s1)" by simp
    with B(4) have "parentOf s2 j = parentOf s1 j" by blast
    with A(4) j show "parentOf s2 j = parentOf s j" by simp
  qed
  have c5: "\<forall>j. obj s j \<noteq> None \<longrightarrow> obj s2 j \<noteq> None" using A(5) B(5) by blast
  have c6: "dom (geometries s) \<subseteq> dom (geometries s2)" using A(6) B(6) by blast
  have c7: "dom (materials s) \<subseteq> dom (materials s2)" using A(7) B(7) by blast
  have c8: "\<forall>i. i \<noteq> r \<longrightarrow> helpers s2 i = helpers s i" using A(8) B(8) by simp
  have c9: "helpers s2 r = helpers s r \<or>
       (\<exists>h. helpers s2 r = Some h \<and> nextId (world s) \<le> h \<and> h < nextId (world s2) \<and>
            (sceneHelpers s < nextId (world s) \<longrightarrow> parentOf s2 h = Some (sceneHelpers s)))"
  proof (cases "helpers s2 r = helpers s1 r")
    case True
    show ?thesis
    proof (cases "helpers s1 r = helpers s r")
      case True
      with \<open>helpers s2 r = helpers s1 r\<close> show ?thesis by simp
    next
      case False
      with A(9) obtain h where h: "helpers s1 r = Some h" "nextId (world s) \<le> h"
        "h < nextId (world s1)"
        "sceneHelpers s < nextId (world s) \<longrightarrow> parentOf s1 h = Some (sceneHelpers s)" by blast
      from B(4) h(3) have "parentOf s2 h = parentOf s1 h" by blast
      with h True n show ?thesis by (intro disjI2 exI [of _ h]) simp
    qed
  next
    case False
    with B(9) obtain h where h: "helpers s2 r = Some h" "nextId (world s1) \<le> h"
      "h < nextId (world s2)"
      "sceneHelpers s1 < nextId (world s1) \<longrightarrow> parentOf s2 h = Some (sceneHelpers s1)" by blast
    with n show ?thesis by (intro disjI2 exI [of _ h]) (simp add: f1(2))
  qed
  from A(10) B(10) obtain evs1 evs2 where
    "emitted s1 = emitted s @ evs1" "\<forall>e \<in> set evs1. isHelperAdded e"
    "emitted s2 = emitted s1 @ evs2" "\<forall>e \<in> set evs2. isHelperAdded e" by blast
  then have c10: "\<exists>evs. emitted s2 = emitted s @ evs \<and> (\<forall>e \<in> set evs. isHelperAdded e)"
    by (intro exI [of _ "evs1 @ evs2"]) auto
  show ?thesis
    unfolding addFrame_def by (intro conjI c1 c2 c3 c4 c5 c6 c7 c8 c9 c10)
qed

lemma addObject_visit_unfold:
  "obj s i = Some ob \<Longrightarrow> addObject_visit r i s = Return (addHelper i r (registerResources ob s))"
  by (simp add: addObject_visit_def registerResources_def Let_def)

lemma registerResources_fields:
  "world (registerResources ob s) = world s"
  "helpers (registerResources ob s) = helpers s"
  "emitted (registerResources ob s) = emitted s"
  "sceneHelpers (registerResources ob s) = sceneHelpers s"
  "unframedAdd (registerResources ob s) = unframedAdd s"
  by (simp_all add: registerResources_def Let_def addGeometry_def addMaterial_def unframedAdd_def
      split: option.splits)

lemma registerResources_tables:
  "dom (geometries s) \<subseteq> dom (geometries (registerResources ob s))"
  "dom (materials s) \<subseteq> dom (materials (registerResources ob s))"
  "obj_geometry ob = Some g \<Longrightarrow> geo_uuid g \<in> dom (geometries (registerResources ob s))"
  "obj_material ob = Some m \<Longrightarrow> material_key m \<in> dom (materials (registerResources ob s))"
  by (auto simp: registerResources_def Let_def addGeometry_def addMaterial_def
      split: option.splits)

lemma obj_registerResources: "obj (registerResources ob s) j = obj s j"
  by (simp add: obj_def registerResources_fields)

lemma addFrame_registerResources: "addFrame r s (registerResources ob s)"
  unfolding addFrame_def
  by (intro conjI exI [of _ "[]"])
     (simp_all add: registerResources_fields registerResources_tables obj_registerResources
        parentOf_def)

lemma addFrame_addHelper: "addFrame r s (addHelper i r s)"
proof (cases rule: addHelper_cases [of i r s])
  case skip
  then show ?thesis by (simp add: addFrame_refl)
next
  case (create ob hk)
  let ?n = "nextId (world s)"
  let ?SH = "sceneHelpers s"
  let ?hs = "helperStore hk r ?SH (world s)"
  let ?s' = "dispatch (HelperAdded ?n)
       (s\<lparr>world := (world s)\<lparr>nextId := Suc (Suc ?n), objects := ?hs\<rparr>,
           helpers := (helpers s)(r \<mapsto> ?n)\<rparr>)"
  have e: "addHelper i r s = ?s'" by (rule addHelper_create [OF create])
  have os: "objects (world ?s') = ?hs" and nx: "nextId (world ?s') = Suc (Suc ?n)"
    and hp: "helpers ?s' = (helpers s)(r \<mapsto> ?n)"
    and em: "emitted ?s' = emitted s @ [HelperAdded ?n]"
    and gm: "geometries ?s' = geometries s" "materials ?s' = materials s"
    and un: "unframedAdd ?s' = unframedAdd s"
    by (simp_all add: dispatch_def unframedAdd_def)
  have ob: "obj ?s' j = ?hs j" for j by (simp add: obj_def os)
  have pa: "parentOf ?s' j = par ?hs j" for j by (simp add: parentOf_def os)
  have "addFrame r s ?s'"
    unfolding addFrame_def
  proof (intro conjI)
    show "unframedAdd ?s' = unframedAdd s" by (rule un)
    show "nextId (world s) \<le> nextId (world ?s')" by (simp add: nx)
    show "\<forall>j. j < ?n \<and> j \<noteq> ?SH \<longrightarrow> obj ?s' j = obj s j"
    proof (intro allI impI)
      fix j assume j: "j < ?n \<and> j \<noteq> ?SH"
      have "?hs j = objects (world s) j"
        by (rule helperStore_other) (use j in simp_all)
      then show "obj ?s' j = obj s j" unfolding ob by (simp add: obj_def)
    qed
    show "\<forall>j. j < ?n \<longrightarrow> parentOf ?s' j = parentOf s j"
      unfolding pa by (simp add: helperStore_par parentOf_def)
    show "\<forall>j. obj s j \<noteq> None \<longrightarrow> obj ?s' j \<noteq> None"
      unfolding ob by (simp add: helperStore_defined obj_def)
    show "dom (geometries s) \<subseteq> dom (geometries ?s')" by (simp add: gm)
    show "dom (materials s) \<subseteq> dom (materials ?s')" by (simp add: gm)
    show "\<forall>j. j \<noteq> r \<longrightarrow> helpers ?s' j = helpers s j" by (simp add: hp)
    show "helpers ?s' r = helpers s r \<or>
       (\<exists>h. helpers ?s' r = Some h \<and> ?n \<le> h \<and> h < nextId (world ?s') \<and>
            (?SH < ?n \<longrightarrow> parentOf ?s' h = Some ?SH))"
      unfolding pa by (intro disjI2 exI [of _ ?n]) (simp add: hp nx helperStore_par)
    show "\<exists>evs. emitted ?s' = emitted s @ evs \<and> (\<forall>e \<in> set evs. isHelperAdded e)"
      by (intro exI [of _ "[HelperAdded ?n]"]) (simp add: em isHelperAdded_def)
  qed
  with e show ?thesis by simp
qed

lemma addObject_visit_step:
  assumes "obj s i = Some ob"
  shows "\<exists>s'. addObject_visit r i s = Return s' \<and> addFrame r s s' \<and>
           (\<forall>g. obj_geometry ob = Some g \<longrightarrow> geo_uuid g \<in> dom (geometries s')) \<and>
           (\<forall>m. obj_material ob = Some m \<longrightarrow> material_key m \<in> dom (materials s'))"
proof -
  let ?sg = "registerResources ob s"
  let ?s' = "addHelper i r ?sg"
  have f: "addFrame r s ?s'"
    by (rule addFrame_trans [OF addFrame_registerResources addFrame_addHelper])
  note D = addFrameD [OF addFrame_addHelper [of r ?sg i]]
  have g: "\<forall>g. obj_geometry ob = Some g \<longrightarrow> geo_uuid g \<in> dom (geometries ?s')"
    using registerResources_tables(3) [of ob _ s] D(6) by blast
  have m: "\<forall>m. obj_material ob = Some m \<longrightarrow> material_key m \<in> dom (materials ?s')"
    using registerResources_tables(4) [of ob _ s] D(7) by blast
  show ?thesis
    by (intro exI [of _ ?s'] conjI addObject_visit_unfold [OF assms] f g m)
qed

lemma run_addObject_visit:
  "\<forall>i \<in> set xs. i < nextId (world st) \<and> i \<noteq> sceneHelpers st \<and> obj st i \<noteq> None \<Longrightarrow>
   \<exists>st'. run (addObject_visit r) xs st = Return st' \<and> addFrame r st st' \<and>
     (\<forall>d \<in> set xs. \<forall>ob g. obj st d = Some ob \<and> obj_geometry ob = Some g \<longrightarrow>
          geo_uuid g \<in> dom (geometries st')) \<and>
     (\<forall>d \<in> set xs. \<forall>ob m. obj st d = Some ob \<and> obj_material ob = Some m \<longrightarrow>
          material_key m \<in> dom (materials st'))"
proof (induction xs arbitrary: st)
  case Nil
  then show ?case by (simp add: addFrame_refl)
next
  case (Cons x xs)
  from Cons.prems obtain ob where ob: "obj st x = Some ob" by auto
  from addObject_visit_step [OF ob, of r] obtain s1 where
    r1: "addObject_visit r x st = Return s1" and f1: "addFrame r st s1"
    and g1: "\<forall>g. obj_geometry ob = Some g \<longrightarrow> geo_uuid g \<in> dom (geometries s1)"
    and m1: "\<forall>m. obj_material ob = Some m \<longrightarrow> material_key m \<in> dom (materials s1)"
    by blast
  note D1 = addFrameD [OF f1]
  note fl = unframedAdd_fields [OF D1(1)]
  have same: "obj s1 i = obj st i" if "i \<in> set (x # xs)" for i
  proof -
    from that Cons.prems have "i < nextId (world st) \<and> i \<noteq> sceneHelpers st" by blast
    with D1(3) show ?thesis by blast
  qed
  have pre: "\<forall>i \<in> set xs. i < nextId (world s1) \<and> i \<noteq> sceneHelpers s1 \<and> obj s1 i \<noteq> None"
  proof
    fix i assume i: "i \<in> set xs"
    with Cons.prems have "i < nextId (world st)" "i \<noteq> sceneHelpers st" "obj st i \<noteq> None"
      by auto
    with D1(2) same [of i] i show "i < nextId (world s1) \<and> i \<noteq> sceneHelpers s1 \<and> obj s1 i \<noteq> None"
      by (simp add: fl(2))
  qed
  from Cons.IH [OF pre] obtain st' where
    r2: "run (addObject_visit r) xs s1 = Return st'" and f2: "addFrame r s1 st'"
    and g2: "\<forall>d \<in> set xs. \<forall>ob g. obj s1 d = Some ob \<and> obj_geometry ob = Some g \<longrightarrow>
          geo_uuid g \<in> dom (geometries st')"
    and m2: "\<forall>d \<in> set xs. \<forall>ob m. obj s1 d = Some ob \<and> obj_material ob = Some m \<longrightarrow>
          material_key m \<in> dom (materials st')"
    by blast
  note D2 = addFrameD [OF f2]
  have r: "run (addObject_visit r) (x # xs) st = Return st'" by (simp add: r1 r2)
  have f: "addFrame r st st'" by (rule addFrame_trans [OF f1 f2])
  have g: "\<forall>d \<in> set (x # xs). \<forall>ob g. obj st d = Some ob \<and> obj_geometry ob = Some g \<longrightarrow>
          geo_uuid g \<in> dom (geometries st')"
  proof (intro ballI allI impI)
    fix d ob' g assume d: "d \<in> set (x # xs)"
      and o: "obj st d = Some ob' \<and> obj_geometry ob' = Some g"
    show "geo_uuid g \<in> dom (geometries st')"
    proof (cases "d = x")
      case True
      with o ob g1 D2(6) show ?thesis by auto
    next
      case False
      with d have dx: "d \<in> set xs" by simp
      with o same [of d] g2 show ?thesis by auto
    qed
  qed
  have m: "\<forall>d \<in> set (x # xs). \<forall>ob m. obj st d = Some ob \<and> obj_material ob = Some m \<longrightarrow>
          material_key m \<in> dom (materials st')"
  proof (intro ballI allI impI)
    fix d ob' m assume d: "d \<in> set (x # xs)"
      and o: "obj st d = Some ob' \<and> obj_material ob' = Some m"
    show "material_key m \<in> dom (materials st')"
    proof (cases "d = x")
      case True
      with o ob m1 D2(7) show ?thesis by auto
    next
      case False
      with d have dx: "d \<in> set xs" by simp
      with o same [of d] m2 show ?thesis by auto
    qed
  qed
  show ?case by (intro exI [of _ st'] conjI r f g m)
qed

lemma traverse_addObject_visit:
  assumes sh: "shaped st t"
    and pre: "\<forall>i \<in> set (preorder t). i < nextId (world st) \<and> i \<noteq> sceneHelpers st \<and> obj st i \<noteq> None"
  shows "traverse (addObject_visit r) (root t) st = Some (run (addObject_visit r) (preorder t) st)"
proof -
  let ?X = "set (preorder t)"
  let ?Inv = "\<lambda>s. \<forall>i \<in> ?X. i < nextId (world s) \<and> i \<noteq> sceneHelpers s \<and> obj s i \<noteq> None"
  have step: "?Inv s' \<and> (\<forall>j \<in> ?X. childrenOf s' j = childrenOf s j)"
    if inv: "?Inv s" and i: "i \<in> ?X" and r: "addObject_visit r i s = Return s'" for i s s'
  proof -
    from inv i obtain ob where ob: "obj s i = Some ob" by auto
    from addObject_visit_step [OF ob, of r] r have f: "addFrame r s s'" by auto
    note D = addFrameD [OF f]
    note fl = unframedAdd_fields [OF D(1)]
    have same: "obj s' j = obj s j" if "j \<in> ?X" for j
    proof -
      from that inv have "j < nextId (world s) \<and> j \<noteq> sceneHelpers s" by blast
      with D(3) show ?thesis by blast
    qed
    have "?Inv s'"
    proof
      fix j assume j: "j \<in> ?X"
      with inv have "j < nextId (world s)" "j \<noteq> sceneHelpers s" "obj s j \<noteq> None" by auto
      with D(2) same [OF j] show "j < nextId (world s') \<and> j \<noteq> sceneHelpers s' \<and> obj s' j \<noteq> None"
        by (simp add: fl(2))
    qed
    moreover have "\<forall>j \<in> ?X. childrenOf s' j = childrenOf s j"
      using same by (simp add: childrenOf_def)
    ultimately show ?thesis by blast
  qed
  show ?thesis
    by (rule traverse_run [where Inv = ?Inv and S = ?X, OF step _ sh]) (use pre in simp_all)
qed

lemma fixture_two_lights_first:
  "helpers (addHelper 4 3 fixture_two_lights) 3 = Some 10"
  "childrenOf (addHelper 4 3 fixture_two_lights) 1 = [10]"
  "emitted (addHelper 4 3 fixture_two_lights) = [HelperAdded 10]"
  by (simp_all add: fixture_two_lights_def fixture_editor_def fixture_object_def
      fixture_userData_def addHelper_def obj_def helperKind_def newObject_def Let_def
      three_add_def three_remove_def updObj_def dispatch_def childrenOf_def)

lemma fixture_two_lights_second:
  "helpers (addHelper 5 3 (addHelper 4 3 fixture_two_lights)) 3 = Some 12"
  "childrenOf (addHelper 5 3 (addHelper 4 3 fixture_two_lights)) 1 = [10, 12]"
  "emitted (addHelper 5 3 (addHelper 4 3 fixture_two_lights)) = [HelperAdded 10, HelperAdded 12]"
  by (simp_all add: fixture_two_lights_def fixture_editor_def fixture_object_def
      fixture_userData_def addHelper_def obj_def helperKind_def newObject_def Let_def
      three_add_def three_remove_def updObj_def dispatch_def childrenOf_def)


lemma fixture_two_lights_state:
  "sceneGraphChanged_active (addHelper 5 3 (addHelper 4 3 fixture_two_lights))"
  "scene (addHelper 5 3 (addHelper 4 3 fixture_two_lights)) = 0"
  "parentOf (addHelper 5 3 (addHelper 4 3 fixture_two_lights)) 3 = None"
  "obj (addHelper 5 3 (addHelper 4 3 fixture_two_lights)) 3 \<noteq> None"
  "obj (addHelper 5 3 (addHelper 4 3 fixture_two_lights)) 0 \<noteq> None"
  by (simp_all add: fixture_two_lights_def fixture_editor_def fixture_object_def
      fixture_userData_def addHelper_def obj_def helperKind_def newObject_def Let_def
      three_add_def three_remove_def updObj_def dispatch_def parentOf_def par_def)

lemma fixture_two_lights_visits:
  "addObject_visit 3 3 fixture_two_lights = Return fixture_two_lights"
  "addObject_visit 3 4 fixture_two_lights = Return (addHelper 4 3 fixture_two_lights)"
  "addObject_visit 3 5 (addHelper 4 3 fixture_two_lights)
     = Return (addHelper 5 3 (addHelper 4 3 fixture_two_lights))"
  by (simp_all add: fixture_two_lights_def fixture_editor_def fixture_object_def
      fixture_userData_def addObject_visit_def addHelper_def obj_def helperKind_def
      newObject_def Let_def three_add_def three_remove_def updObj_def dispatch_def)

lemma fixture_two_lights_shape:
  "shaped fixture_two_lights (Tree 3 [Tree 4 [], Tree 5 []])"
  "\<forall>i \<in> set (preorder (Tree 3 [Tree 4 [], Tree 5 []])).
      i < nextId (world fixture_two_lights) \<and> i \<noteq> sceneHelpers fixture_two_lights \<and>
      obj fixture_two_lights i \<noteq> None"
  by (simp_all add: fixture_two_lights_def fixture_editor_def fixture_object_def
      childrenOf_def obj_def)

text \<open>
  Claim C4 fails on the code: addHelper tests whether the object has a helper entry, but
  stores the new helper under the selection root. Adding the group 3 with the two lights
  4 and 5 makes a helper for 4 and registers it for 3; the call for 5, with the same
  selection root 3, which has an entry by then, makes a second helper, puts it into the
  overlay scene next to the first one and replaces the entry of 3.
\<close>

theorem addObject_replaces_helper:
  "helpers (addHelper 4 3 fixture_two_lights) 3 = Some 10 \<and>
   helpers (addHelper 5 3 (addHelper 4 3 fixture_two_lights)) 3 = Some 12 \<and>
   childrenOf (addHelper 5 3 (addHelper 4 3 fixture_two_lights)) 1 = [10, 12] \<and>
   (\<exists>st'. addObject 3 Undefined fixture_two_lights = Some (Return st') \<and>
      helpers st' 3 = Some 12 \<and> childrenOf st' 1 = [10, 12] \<and>
      emitted st' = [HelperAdded 10, HelperAdded 12, ObjectAdded 3, SceneGraphChanged])"
proof -
  let ?fx = fixture_two_lights
  let ?s2 = "addHelper 5 3 (addHelper 4 3 ?fx)"
  let ?st' = "dispatch_sceneGraphChanged (dispatch (ObjectAdded 3)
                (setObjects (three_add (scene ?s2) 3 (objects (world ?s2))) ?s2))"
  have run: "run (addObject_visit 3) (preorder (Tree 3 [Tree 4 [], Tree 5 []])) ?fx = Return ?s2"
    by (simp add: fixture_two_lights_visits)
  have tr: "traverse (addObject_visit 3) 3 ?fx = Some (Return ?s2)"
    using traverse_addObject_visit [OF fixture_two_lights_shape, of 3] run by simp
  have res: "addObject 3 Undefined ?fx = Some (Return ?st')"
    by (simp add: addObject_def tr)
  have h: "helpers ?st' 3 = Some 12"
    by (simp add: dispatch_sceneGraphChanged_def dispatch_def setObjects_def
        fixture_two_lights_second)
  have e: "emitted ?st' = [HelperAdded 10, HelperAdded 12, ObjectAdded 3, SceneGraphChanged]"
    by (simp add: dispatch_sceneGraphChanged_def dispatch_def setObjects_def
        fixture_two_lights_second fixture_two_lights_state)
  have p: "par (objects (world ?s2)) 3 = None"
    using fixture_two_lights_state(3) by (simp add: parentOf_def)
  have "childrenOf ?st' 1 = kids (three_add 0 3 (objects (world ?s2))) 1"
    by (simp add: childrenOf_kids dispatch_sceneGraphChanged_def dispatch_def setObjects_def
        fixture_two_lights_state)
  also have "\<dots> = kids (objects (world ?s2)) 1"
    by (simp add: three_add_kids_fresh [OF p])
  also have "\<dots> = [10, 12]"
    using fixture_two_lights_second(2) by (simp add: childrenOf_kids)
  finally have c: "childrenOf ?st' 1 = [10, 12]" .
  show ?thesis
    using fixture_two_lights_first(1) fixture_two_lights_second(1,2) res h c e by blast
qed

subsection \<open>addObject followed by removeObject\<close>


lemma addObject_returns:
  assumes sh: "shaped st t"
    and pre: "\<forall>i \<in> set (preorder t). i < nextId (world st) \<and> i \<noteq> sceneHelpers st \<and> obj st i \<noteq> None"
  shows "\<exists>s1. addFrame (root t) st s1 \<and>
     (\<forall>d \<in> set (preorder t). \<forall>ob g. obj st d = Some ob \<and> obj_geometry ob = Some g \<longrightarrow>
          geo_uuid g \<in> dom (geometries s1)) \<and>
     (\<forall>d \<in> set (preorder t). \<forall>ob m. obj st d = Some ob \<and> obj_material ob = Some m \<longrightarrow>
          material_key m \<in> dom (materials s1)) \<and>
     addObject (root t) Undefined st =
       Some (Return (dispatch_sceneGraphChanged (dispatch (ObjectAdded (root t))
         (setObjects (three_add (scene s1) (root t) (objects (world s1))) s1))))"
proof -
  from run_addObject_visit [OF pre, of "root t"] obtain s1 where
    r1: "run (addObject_visit (root t)) (preorder t) st = Return s1"
    and f1: "addFrame (root t) st s1"
    and g1: "\<forall>d \<in> set (preorder t). \<forall>ob g. obj st d = Some ob \<and> obj_geometry ob = Some g \<longrightarrow>
          geo_uuid g \<in> dom (geometries s1)"
    and m1: "\<forall>d \<in> set (preorder t). \<forall>ob m. obj st d = Some ob \<and> obj_material ob = Some m \<longrightarrow>
          material_key m \<in> dom (materials s1)"
    by blast
  have tr: "traverse (addObject_visit (root t)) (root t) st = Some (Return s1)"
    using traverse_addObject_visit [OF sh pre, of "root t"] r1 by simp
  have "addObject (root t) Undefined st =
       Some (Return (dispatch_sceneGraphChanged (dispatch (ObjectAdded (root t))
         (setObjects (three_add (scene s1) (root t) (objects (world s1))) s1))))"
    by (simp add: addObject_def tr)
  with f1 g1 m1 show ?thesis by blast
qed











subsection \<open>setScene\<close>

lemma sourceTreeD:
  assumes "sourceTree source st ts"
  shows "childrenOf st source = map root ts"
    and "\<forall>t \<in> set ts. shaped st t \<and> parentOf st (root t) = Some source"
    and "\<forall>i \<in> set (concat (map preorder ts)).
          i < nextId (world st) \<and> i \<noteq> sceneHelpers st \<and> obj st i \<noteq> None"
    and "distinct (concat (map preorder ts))"
    and "source \<notin> set (concat (map preorder ts))"
    and "scene st \<notin> set (concat (map preorder ts))"
    and "source \<noteq> scene st" and "source \<noteq> sceneHelpers st" and "scene st \<noteq> sceneHelpers st"
    and "source < nextId (world st)" and "scene st < nextId (world st)"
    and "obj st source \<noteq> None" and "obj st (scene st) \<noteq> None"
  using assms unfolding sourceTree_def by simp_all

lemma kids_defined: "os j = Some ob \<Longrightarrow> kids os j = children ob"
  by (simp add: kids_def)

lemma addObject_child_of_source:
  assumes src: "sourceTree source st (t # ts)"
  shows "\<exists>st'. addObject (root t) Undefined st = Some (Return st') \<and> sourceTree source st' ts \<and>
      childrenOf st' (scene st) = childrenOf st (scene st) @ [root t] \<and>
      parentOf st' (root t) = Some (scene st) \<and>
      unframedAdd st' = unframedAdd st \<and> nextId (world st) \<le> nextId (world st') \<and>
      (\<forall>j. j < nextId (world st) \<and> j \<noteq> root t \<longrightarrow> parentOf st' j = parentOf st j) \<and>
      (\<exists>evs. emitted st' = emitted st @ evs \<and>
         (\<forall>e \<in> set evs. e \<noteq> SceneSet \<and> (e = SceneGraphChanged \<longrightarrow> sceneGraphChanged_active st)))"
proof -
  let ?c = "root t"
  let ?sc = "scene st"
  let ?SH = "sceneHelpers st"
  let ?N = "set (concat (map preorder (t # ts)))"
  note S = sourceTreeD [OF src]
  have sh: "shaped st t" and pc: "parentOf st ?c = Some source" using S(2) by simp_all
  have pre: "\<forall>i \<in> set (preorder t). i < nextId (world st) \<and> i \<noteq> ?SH \<and> obj st i \<noteq> None"
    using S(3) by simp
  have cN: "?c \<in> ?N" using root_in_preorder [of t] by simp
  have cold: "?c < nextId (world st)" "?c \<noteq> ?SH" "obj st ?c \<noteq> None"
    using S(3) cN by blast+
  have csc: "?c \<noteq> ?sc" using S(6) cN by auto
  have csrc: "?c \<noteq> source" using S(5) cN by auto
  from addObject_returns [OF sh pre] obtain s1 where
    f: "addFrame ?c st s1"
    and res: "addObject ?c Undefined st =
       Some (Return (dispatch_sceneGraphChanged (dispatch (ObjectAdded ?c)
         (setObjects (three_add (scene s1) ?c (objects (world s1))) s1))))"
    by blast
  note D = addFrameD [OF f]
  note fl = unframedAdd_fields [OF D(1)]
  let ?os1 = "objects (world s1)"
  let ?os' = "three_add ?sc ?c ?os1"
  let ?st' = "dispatch_sceneGraphChanged (dispatch (ObjectAdded ?c) (setObjects ?os' s1))"
  have res': "addObject ?c Undefined st = Some (Return ?st')" using res by (simp add: fl(3))
  have w': "objects (world ?st') = ?os'" and n': "nextId (world ?st') = nextId (world s1)"
    and sc': "scene ?st' = ?sc" and sh': "sceneHelpers ?st' = ?SH"
    and em': "emitted ?st' = emitted s1 @ [ObjectAdded ?c]
                @ (if sceneGraphChanged_active st then [SceneGraphChanged] else [])"
    by (simp_all add: dispatch_sceneGraphChanged_def dispatch_def setObjects_def fl)
  have un': "unframedAdd ?st' = unframedAdd st"
    using D(1) by (simp add: unframedAdd_def dispatch_sceneGraphChanged_def dispatch_def
        setObjects_def)
  have old: "obj s1 j = obj st j" if "j < nextId (world st)" "j \<noteq> ?SH" for j
    using D(3) that by blast
  have k1: "kids ?os1 j = childrenOf st j" if "j < nextId (world st)" "j \<noteq> ?SH" for j
    using old [OF that] by (simp add: childrenOf_def kids_def obj_def)
  have p1: "par ?os1 j = parentOf st j" if "j < nextId (world st)" for j
    using D(4) that by (simp add: parentOf_def)
  have pc1: "par ?os1 ?c = Some source" using p1 [OF cold(1)] pc by simp
  have c1: "?os1 ?c \<noteq> None" using D(5) cold(3) by (simp add: obj_def)
  have sc1: "?os1 ?sc \<noteq> None" using D(5) S(13) by (simp add: obj_def)
  have kids': "kids ?os' j = (if j = ?sc then kids ?os1 ?sc @ [?c]
        else if j = source then remove1 ?c (kids ?os1 source) else kids ?os1 j)" for j
    using three_add_kids_moved [OF pc1 c1 csc sc1, of j] S(7) by simp
  have par': "par ?os' j = (if j = ?c then Some ?sc else par ?os1 j)" for j
    using csc c1 by (simp add: three_add_par)
  have A: "childrenOf ?st' ?sc = childrenOf st ?sc @ [?c]"
    using k1 [OF S(11) S(9)] by (simp add: childrenOf_kids w' kids')
  have B: "parentOf ?st' ?c = Some ?sc" by (simp add: parentOf_def w' par')
  have C: "\<forall>j. j < nextId (world st) \<and> j \<noteq> ?c \<longrightarrow> parentOf ?st' j = parentOf st j"
    using p1 by (simp add: parentOf_def w' par')
  have ch: "childrenOf ?st' j = childrenOf st j"
    if "j < nextId (world st)" "j \<noteq> ?SH" "j \<noteq> ?sc" "j \<noteq> source" for j
    using k1 [OF that(1,2)] that(3,4) by (simp add: childrenOf_kids w' kids')
  have T: "sourceTree source ?st' ts"
    unfolding sourceTree_def
  proof (intro conjI ballI)
    show "childrenOf ?st' source = map root ts"
      using k1 [OF S(10) S(8)] S(1) S(7) by (simp add: childrenOf_kids w' kids')
  next
    fix u assume u: "u \<in> set ts"
    have "childrenOf ?st' j = childrenOf st j" if "j \<in> set (preorder u)" for j
    proof (rule ch)
      from that u have jN: "j \<in> ?N" by auto
      from S(3) jN show "j < nextId (world st)" "j \<noteq> ?SH" by blast+
      from S(6) jN show "j \<noteq> ?sc" by blast
      from S(5) jN show "j \<noteq> source" by blast
    qed
    then have "shaped ?st' u = shaped st u" by (rule shaped_cong)
    with S(2) u show "shaped ?st' u" by simp
    have ru: "root u \<noteq> ?c" by (rule roots_disjoint [OF S(4) u])
    from u root_in_preorder [of u] have "root u \<in> ?N" by auto
    with S(3) have "root u < nextId (world st)" by blast
    with C ru have "parentOf ?st' (root u) = parentOf st (root u)" by blast
    with S(2) u show "parentOf ?st' (root u) = Some source" by simp
  next
    fix i assume i: "i \<in> set (concat (map preorder ts))"
    then have iN: "i \<in> ?N" by simp
    with S(3) have a: "i < nextId (world st)" "i \<noteq> ?SH" "obj st i \<noteq> None" by blast+
    from a(1) D(2) show "i < nextId (world ?st')" by (simp add: n')
    from a(2) show "i \<noteq> sceneHelpers ?st'" by (simp add: sh')
    from a(3) D(5) show "obj ?st' i \<noteq> None" by (simp add: obj_def w' three_add_defined)
  next
    show "distinct (concat (map preorder ts))" using S(4) by simp
    show "source \<notin> set (concat (map preorder ts))" using S(5) by simp
    show "scene ?st' \<notin> set (concat (map preorder ts))" using S(6) by (simp add: sc')
    show "source \<noteq> scene ?st'" using S(7) by (simp add: sc')
    show "source \<noteq> sceneHelpers ?st'" using S(8) by (simp add: sh')
    show "scene ?st' \<noteq> sceneHelpers ?st'" using S(9) by (simp add: sc' sh')
    show "source < nextId (world ?st')" using S(10) D(2) by (simp add: n')
    show "scene ?st' < nextId (world ?st')" using S(11) D(2) by (simp add: n' sc')
    show "obj ?st' source \<noteq> None" using S(12) D(5) by (simp add: obj_def w' three_add_defined)
    show "obj ?st' (scene ?st') \<noteq> None"
      using S(13) D(5) by (simp add: obj_def w' three_add_defined sc')
  qed
  from D(10) obtain evs where evs: "emitted s1 = emitted st @ evs"
    "\<forall>e \<in> set evs. isHelperAdded e" by blast
  have E: "\<exists>evs. emitted ?st' = emitted st @ evs \<and>
         (\<forall>e \<in> set evs. e \<noteq> SceneSet \<and> (e = SceneGraphChanged \<longrightarrow> sceneGraphChanged_active st))"
    using evs
    by (intro exI [of _ "evs @ [ObjectAdded ?c]
                @ (if sceneGraphChanged_active st then [SceneGraphChanged] else [])"])
       (auto simp: em' isHelperAdded_def)
  have N: "nextId (world st) \<le> nextId (world ?st')" using D(2) by (simp add: n')
  show ?thesis by (intro exI [of _ ?st'] conjI res' T A B un' N C E)
qed

lemma addAllChildren_returns:
  "sourceTree source st ts \<Longrightarrow>
   \<exists>st'. addAllChildren source st = Some (Return st') \<and>
      childrenOf st' (scene st) = childrenOf st (scene st) @ map root ts \<and>
      childrenOf st' source = [] \<and>
      (\<forall>t \<in> set ts. parentOf st' (root t) = Some (scene st)) \<and>
      unframedAdd st' = unframedAdd st \<and> nextId (world st) \<le> nextId (world st') \<and>
      (\<forall>j. j < nextId (world st) \<and> j \<notin> set (map root ts) \<longrightarrow> parentOf st' j = parentOf st j) \<and>
      (\<exists>evs. emitted st' = emitted st @ evs \<and>
         (\<forall>e \<in> set evs. e \<noteq> SceneSet \<and> (e = SceneGraphChanged \<longrightarrow> sceneGraphChanged_active st)))"
proof (induction ts arbitrary: st)
  case Nil
  have "childrenOf st source = []" using sourceTreeD(1) [OF Nil] by simp
  then show ?case
    by (intro exI [of _ st] conjI exI [of _ "[]"]) (simp_all add: addAllChildren.simps [of source st])
next
  case (Cons t ts)
  let ?c = "root t"
  note S = sourceTreeD [OF Cons.prems]
  from addObject_child_of_source [OF Cons.prems] obtain sa where
    ra: "addObject ?c Undefined st = Some (Return sa)" and Ta: "sourceTree source sa ts"
    and cha: "childrenOf sa (scene st) = childrenOf st (scene st) @ [?c]"
    and pca: "parentOf sa ?c = Some (scene st)"
    and una: "unframedAdd sa = unframedAdd st" and na: "nextId (world st) \<le> nextId (world sa)"
    and pa: "\<forall>j. j < nextId (world st) \<and> j \<noteq> ?c \<longrightarrow> parentOf sa j = parentOf st j"
    and eva: "\<exists>evs. emitted sa = emitted st @ evs \<and>
         (\<forall>e \<in> set evs. e \<noteq> SceneSet \<and> (e = SceneGraphChanged \<longrightarrow> sceneGraphChanged_active st))"
    by blast
  note fl = unframedAdd_fields [OF una]
  from Cons.IH [OF Ta] obtain st' where
    r: "addAllChildren source sa = Some (Return st')"
    and ch': "childrenOf st' (scene sa) = childrenOf sa (scene sa) @ map root ts"
    and cs': "childrenOf st' source = []"
    and p': "\<forall>u \<in> set ts. parentOf st' (root u) = Some (scene sa)"
    and un': "unframedAdd st' = unframedAdd sa" and n': "nextId (world sa) \<le> nextId (world st')"
    and pf': "\<forall>j. j < nextId (world sa) \<and> j \<notin> set (map root ts) \<longrightarrow> parentOf st' j = parentOf sa j"
    and ev': "\<exists>evs. emitted st' = emitted sa @ evs \<and>
         (\<forall>e \<in> set evs. e \<noteq> SceneSet \<and> (e = SceneGraphChanged \<longrightarrow> sceneGraphChanged_active sa))"
    by blast
  have res: "addAllChildren source st = Some (Return st')"
    using S(1) ra r by (simp add: addAllChildren.simps [of source st])
  have A: "childrenOf st' (scene st) = childrenOf st (scene st) @ map root (t # ts)"
    using ch' cha by (simp add: fl(3))
  have cold: "?c < nextId (world st)" using S(3) root_in_preorder [of t] by simp
  have cnot: "?c \<notin> set (map root ts)" by (rule root_not_in_siblings [OF S(4)])
  have "parentOf st' ?c = parentOf sa ?c" using pf' cold na cnot by simp
  with pca p' have B: "\<forall>u \<in> set (t # ts). parentOf st' (root u) = Some (scene st)"
    by (simp add: fl(3))
  have U: "unframedAdd st' = unframedAdd st" using un' una by simp
  have N: "nextId (world st) \<le> nextId (world st')" using na n' by simp
  have P: "\<forall>j. j < nextId (world st) \<and> j \<notin> set (map root (t # ts)) \<longrightarrow>
             parentOf st' j = parentOf st j"
  proof (intro allI impI)
    fix j assume j: "j < nextId (world st) \<and> j \<notin> set (map root (t # ts))"
    then have "j < nextId (world sa)" "j \<notin> set (map root ts)" "j \<noteq> ?c" using na by auto
    with pf' pa j show "parentOf st' j = parentOf st j" by simp
  qed
  from eva ev' obtain evs1 evs2 where
    e: "emitted sa = emitted st @ evs1"
       "\<forall>e \<in> set evs1. e \<noteq> SceneSet \<and> (e = SceneGraphChanged \<longrightarrow> sceneGraphChanged_active st)"
       "emitted st' = emitted sa @ evs2"
       "\<forall>e \<in> set evs2. e \<noteq> SceneSet \<and> (e = SceneGraphChanged \<longrightarrow> sceneGraphChanged_active sa)"
    by blast
  have E: "\<exists>evs. emitted st' = emitted st @ evs \<and>
         (\<forall>e \<in> set evs. e \<noteq> SceneSet \<and> (e = SceneGraphChanged \<longrightarrow> sceneGraphChanged_active st))"
    using e fl(5) by (intro exI [of _ "evs1 @ evs2"]) auto
  show ?case by (intro exI [of _ st'] conjI res A cs' B U N P E)
qed

lemma setScene_unfold:
  "obj st source = Some src \<Longrightarrow>
   setScene source st =
     Option.bind (removeAllChildren (setScene_prelude source st))
       (\<lambda>r. case r of
          Throw e s \<Rightarrow> Some (Throw e s)
        | Return st3 \<Rightarrow>
            Option.bind (addAllChildren source st3)
              (\<lambda>r. case r of
                 Throw e s \<Rightarrow> Some (Throw e s)
               | Return st4 \<Rightarrow>
                   Some (Return (dispatch SceneSet
                     (st4\<lparr>sceneGraphChanged_active := True\<rparr>)))))"
  by (simp add: setScene_def setScene_prelude_def Let_def)

lemma setScene_prelude_fields:
  "components (setScene_prelude source st) = components st"
  "helpers (setScene_prelude source st) = helpers st"
  "scene (setScene_prelude source st) = scene st"
  "sceneHelpers (setScene_prelude source st) = sceneHelpers st"
  "emitted (setScene_prelude source st) = emitted st"
  "nextId (world (setScene_prelude source st)) = nextId (world st)"
  "childrenOf (setScene_prelude source st) j = childrenOf st j"
  "parentOf (setScene_prelude source st) j = parentOf st j"
  "(obj (setScene_prelude source st) j = None) = (obj st j = None)"
  by (simp_all add: setScene_prelude_def setObjects_def childrenOf_kids parentOf_par
      kids_updObj_same par_updObj_same obj_def updObj_defined split: option.splits)

lemma setScene_prelude_suppressed:
  "obj st source \<noteq> None \<Longrightarrow> \<not> sceneGraphChanged_active (setScene_prelude source st)"
  by (auto simp: setScene_prelude_def setObjects_def)

lemma sourceTree_cong:
  assumes T: "sourceTree source s ts"
    and sc: "scene s' = scene s" and sh: "sceneHelpers s' = sceneHelpers s"
    and n: "nextId (world s) \<le> nextId (world s')"
    and ch: "\<And>j. j \<noteq> sceneHelpers s \<Longrightarrow> j \<noteq> scene s \<Longrightarrow> childrenOf s' j = childrenOf s j"
    and pa: "\<And>t. t \<in> set ts \<Longrightarrow> parentOf s' (root t) = parentOf s (root t)"
    and df: "\<And>j. obj s j \<noteq> None \<Longrightarrow> obj s' j \<noteq> None"
  shows "sourceTree source s' ts"
proof -
  note S = sourceTreeD [OF T]
  let ?N = "set (concat (map preorder ts))"
  have cN: "childrenOf s' j = childrenOf s j" if "j \<in> ?N" for j
  proof (rule ch)
    from S(3) that show "j \<noteq> sceneHelpers s" by blast
    from S(6) that show "j \<noteq> scene s" by blast
  qed
  show ?thesis
    unfolding sourceTree_def
  proof (intro conjI ballI)
    show "childrenOf s' source = map root ts" using ch [OF S(8) S(7)] S(1) by simp
  next
    fix u assume u: "u \<in> set ts"
    have "childrenOf s' j = childrenOf s j" if "j \<in> set (preorder u)" for j
      by (rule cN) (use that u in auto)
    then have "shaped s' u = shaped s u" by (rule shaped_cong)
    with S(2) u show "shaped s' u" by simp
    from pa [OF u] S(2) u show "parentOf s' (root u) = Some source" by simp
  next
    fix i assume i: "i \<in> ?N"
    with S(3) have a: "i < nextId (world s)" "i \<noteq> sceneHelpers s" "obj s i \<noteq> None" by blast+
    from a(1) n show "i < nextId (world s')" by simp
    from a(2) show "i \<noteq> sceneHelpers s'" by (simp add: sh)
    from a(3) show "obj s' i \<noteq> None" by (rule df)
  next
    show "distinct (concat (map preorder ts))" by (rule S(4))
    show "source \<notin> ?N" by (rule S(5))
    show "scene s' \<notin> ?N" using S(6) by (simp add: sc)
    show "source \<noteq> scene s'" using S(7) by (simp add: sc)
    show "source \<noteq> sceneHelpers s'" using S(8) by (simp add: sh)
    show "scene s' \<noteq> sceneHelpers s'" using S(9) by (simp add: sc sh)
    show "source < nextId (world s')" using S(10) n by simp
    show "scene s' < nextId (world s')" using S(11) n by (simp add: sc)
    show "obj s' source \<noteq> None" by (rule df [OF S(12)])
    show "obj s' (scene s') \<noteq> None" using df [OF S(13)] by (simp add: sc)
  qed
qed

lemma settableD:
  assumes "settable source st live ts"
  shows "sceneTree st live" and "sourceTree source st ts"
    and "helpersIn (set (concat (map preorder live)) \<union> set (concat (map preorder ts)) \<union> {source}) st"
    and "set (concat (map preorder live)) \<inter> set (concat (map preorder ts)) = {}"
    and "source \<notin> set (concat (map preorder live))"
    and "\<forall>i \<in> set (concat (map preorder live)). i < nextId (world st)"
    and "components st SceneReferenceComponent_componentName \<noteq> None"
  using assms unfolding settable_def by simp_all

lemma setScene_returns:
  assumes a: "settable source st live ts"
  shows "\<exists>st3 st4.
        removeAllChildren (setScene_prelude source st) = Some (Return st3) \<and>
        addAllChildren source st3 = Some (Return st4) \<and>
        setScene source st
          = Some (Return (dispatch SceneSet (st4\<lparr>sceneGraphChanged_active := True\<rparr>))) \<and>
        \<not> sceneGraphChanged_active st3 \<and> \<not> sceneGraphChanged_active st4 \<and>
        childrenOf st3 (scene st) = [] \<and> (\<forall>t \<in> set live. parentOf st3 (root t) = None) \<and>
        childrenOf st4 (scene st) = map root ts \<and> childrenOf st4 source = [] \<and>
        (\<forall>t \<in> set ts. parentOf st4 (root t) = Some (scene st)) \<and>
        (\<forall>t \<in> set live. parentOf st4 (root t) = None) \<and>
        (\<exists>evs. emitted st4 = emitted st @ evs \<and> SceneGraphChanged \<notin> set evs \<and>
               SceneSet \<notin> set evs)"
proof -
  let ?SR = SceneReferenceComponent_componentName
  let ?L = "set (concat (map preorder live))"
  let ?N = "set (concat (map preorder ts))"
  let ?X = "?L \<union> ?N \<union> {source}"
  let ?p = "setScene_prelude source st"
  note A = settableD [OF a]
  note S = sourceTreeD [OF A(2)]
  from A(7) obtain cls where reg: "components st ?SR = Some cls" by blast
  from S(12) obtain src where src: "obj st source = Some src" by blast
  have trp: "sceneTree ?p live"
    using A(1) sceneTree_cong [of ?p st live] by (simp add: setScene_prelude_fields)
  have hip: "helpersIn ?X ?p"
    using A(3) helpersIn_cong_parent [of ?p st ?X] by (simp add: setScene_prelude_fields)
  have regp: "components ?p ?SR = Some cls" using reg by (simp add: setScene_prelude_fields)
  have offp: "\<not> sceneGraphChanged_active ?p" by (rule setScene_prelude_suppressed [OF S(12)])
  have Tp: "sourceTree source ?p ts"
    by (rule sourceTree_cong [OF A(2)]) (simp_all add: setScene_prelude_fields)
  have sub: "?L \<subseteq> ?X" by blast
  from removeAllChildren_sceneTree [OF trp hip sub regp] obtain st3 where
    r3: "removeAllChildren ?p = Some (Return st3)"
    and f3: "detachFrame ?X (set (map root live)) ?p st3"
    and ch3: "childrenOf st3 (scene ?p) = []"
    and pa3: "\<forall>t \<in> set live. parentOf st3 (root t) = None" by blast
  note fl3 = unframed_fields [OF detachFrame_unframed [OF f3]]
  have sc3: "scene st3 = scene st" and sh3: "sceneHelpers st3 = sceneHelpers st"
    and n3: "nextId (world st3) = nextId (world st)"
    and off3: "\<not> sceneGraphChanged_active st3"
    using fl3(2,3,5,7) offp by (simp_all add: setScene_prelude_fields)
  have T3: "sourceTree source st3 ts"
  proof (rule sourceTree_cong [OF Tp])
    show "scene st3 = scene ?p" by (rule fl3(3))
    show "sceneHelpers st3 = sceneHelpers ?p" by (rule fl3(2))
    show "nextId (world ?p) \<le> nextId (world st3)" using fl3(7) by simp
    show "childrenOf st3 j = childrenOf ?p j" if "j \<noteq> sceneHelpers ?p" "j \<noteq> scene ?p" for j
      by (rule detachFrame_children [OF f3 that])
    show "parentOf st3 (root t) = parentOf ?p (root t)" if "t \<in> set ts" for t
    proof (rule detachFrame_parent [OF f3])
      from that root_in_preorder [of t] have rN: "root t \<in> ?N" by auto
      then show "root t \<in> ?X" by blast
      have "set (map root live) \<subseteq> ?L" using root_in_preorder by auto
      with rN A(4) show "root t \<notin> set (map root live)" by blast
    qed
    show "obj st3 j \<noteq> None" if "obj ?p j \<noteq> None" for j
      using that detachFrame_defined [OF f3, of j] by simp
  qed
  from addAllChildren_returns [OF T3] obtain st4 where
    r4: "addAllChildren source st3 = Some (Return st4)"
    and ch4: "childrenOf st4 (scene st3) = childrenOf st3 (scene st3) @ map root ts"
    and cs4: "childrenOf st4 source = []"
    and p4: "\<forall>t \<in> set ts. parentOf st4 (root t) = Some (scene st3)"
    and un4: "unframedAdd st4 = unframedAdd st3"
    and pf4: "\<forall>j. j < nextId (world st3) \<and> j \<notin> set (map root ts) \<longrightarrow>
                 parentOf st4 j = parentOf st3 j"
    and ev4: "\<exists>evs. emitted st4 = emitted st3 @ evs \<and>
         (\<forall>e \<in> set evs. e \<noteq> SceneSet \<and> (e = SceneGraphChanged \<longrightarrow> sceneGraphChanged_active st3))"
    by blast
  note fl4 = unframedAdd_fields [OF un4]
  have off4: "\<not> sceneGraphChanged_active st4" using fl4(5) off3 by simp
  have res: "setScene source st
          = Some (Return (dispatch SceneSet (st4\<lparr>sceneGraphChanged_active := True\<rparr>)))"
    by (simp add: setScene_unfold [OF src] r3 r4)
  have C3: "childrenOf st3 (scene st) = []" using ch3 by (simp add: setScene_prelude_fields)
  have C4: "childrenOf st4 (scene st) = map root ts" using ch4 C3 by (simp add: sc3)
  have P4: "\<forall>t \<in> set ts. parentOf st4 (root t) = Some (scene st)" using p4 by (simp add: sc3)
  have L4: "\<forall>t \<in> set live. parentOf st4 (root t) = None"
  proof
    fix t assume t: "t \<in> set live"
    with root_in_preorder [of t] have rL: "root t \<in> ?L" by auto
    with A(6) have "root t < nextId (world st)" by blast
    then have "root t < nextId (world st3)" by (simp only: n3)
    moreover have "set (map root ts) \<subseteq> ?N" using root_in_preorder by auto
    with rL A(4) have "root t \<notin> set (map root ts)" by blast
    ultimately have "parentOf st4 (root t) = parentOf st3 (root t)" using pf4 by blast
    with pa3 t show "parentOf st4 (root t) = None" by simp
  qed
  from detachFrame_emitted [OF f3] ev4 obtain evs1 evs2 where
    e: "emitted st3 = emitted ?p @ evs1"
       "\<forall>e \<in> set evs1. e \<noteq> SceneSet \<and> (e = SceneGraphChanged \<longrightarrow> sceneGraphChanged_active ?p)"
       "emitted st4 = emitted st3 @ evs2"
       "\<forall>e \<in> set evs2. e \<noteq> SceneSet \<and> (e = SceneGraphChanged \<longrightarrow> sceneGraphChanged_active st3)"
    by blast
  have E: "\<exists>evs. emitted st4 = emitted st @ evs \<and> SceneGraphChanged \<notin> set evs \<and>
               SceneSet \<notin> set evs"
    using e offp off3
    by (intro exI [of _ "evs1 @ evs2"]) (auto simp: setScene_prelude_fields)
  show ?thesis
    by (intro exI [of _ st3] exI [of _ st4] conjI r3 r4 res off3 off4 C3 pa3 C4 cs4 P4 L4 E)
qed

text \<open>
  Claim C6. For a scene \<open>source\<close> whose children unfold to the trees \<open>ts\<close>, set on an
  editor whose scene root has the subtrees \<open>live\<close> (both well-formed, sharing no node),
  setScene returns, and it works in this order: with the "graph changed" channel
  suppressed it removes all children of the scene root, which leaves the root without
  children and its former children without a parent; then it moves the children of
  \<open>source\<close>, in their order, below the scene root, which leaves \<open>source\<close> without children;
  the channel is suppressed during both loops and active afterwards; and the
  notifications emitted contain no "graph changed" and exactly one "scene set", the last
  one.
\<close>

theorem setScene_effects:
  "settable source st live ts \<longrightarrow>
     (\<exists>st3 st4 st'.
        removeAllChildren (setScene_prelude source st) = Some (Return st3) \<and>
        addAllChildren source st3 = Some (Return st4) \<and>
        setScene source st = Some (Return st') \<and>
        \<not> sceneGraphChanged_active st3 \<and> \<not> sceneGraphChanged_active st4 \<and>
        sceneGraphChanged_active st' \<and>
        childrenOf st3 (scene st) = [] \<and> (\<forall>t \<in> set live. parentOf st3 (root t) = None) \<and>
        childrenOf st' (scene st) = map root ts \<and> childrenOf st' source = [] \<and>
        (\<forall>t \<in> set ts. parentOf st' (root t) = Some (scene st)) \<and>
        (\<forall>t \<in> set live. parentOf st' (root t) = None) \<and>
        (\<exists>evs. emitted st' = emitted st @ evs @ [SceneSet] \<and>
               SceneGraphChanged \<notin> set evs \<and> SceneSet \<notin> set evs))"
proof
  assume a: "settable source st live ts"
  from setScene_returns [OF a] obtain st3 st4 where
    r3: "removeAllChildren (setScene_prelude source st) = Some (Return st3)"
    and r4: "addAllChildren source st3 = Some (Return st4)"
    and res: "setScene source st
          = Some (Return (dispatch SceneSet (st4\<lparr>sceneGraphChanged_active := True\<rparr>)))"
    and off: "\<not> sceneGraphChanged_active st3" "\<not> sceneGraphChanged_active st4"
    and c3: "childrenOf st3 (scene st) = []" "\<forall>t \<in> set live. parentOf st3 (root t) = None"
    and c4: "childrenOf st4 (scene st) = map root ts" "childrenOf st4 source = []"
    and p4: "\<forall>t \<in> set ts. parentOf st4 (root t) = Some (scene st)"
            "\<forall>t \<in> set live. parentOf st4 (root t) = None"
    and e4: "\<exists>evs. emitted st4 = emitted st @ evs \<and> SceneGraphChanged \<notin> set evs \<and>
               SceneSet \<notin> set evs"
    by blast
  let ?st' = "dispatch SceneSet (st4\<lparr>sceneGraphChanged_active := True\<rparr>)"
  have ch: "childrenOf ?st' j = childrenOf st4 j" and pa: "parentOf ?st' j = parentOf st4 j" for j
    by (simp_all add: dispatch_def childrenOf_def parentOf_def obj_def)
  have on: "sceneGraphChanged_active ?st'" by (simp add: dispatch_def)
  have em: "emitted ?st' = emitted st4 @ [SceneSet]" by (simp add: dispatch_def)
  have C: "childrenOf ?st' (scene st) = map root ts" "childrenOf ?st' source = []"
    using c4 by (simp_all add: ch)
  have P: "\<forall>t \<in> set ts. parentOf ?st' (root t) = Some (scene st)"
    "\<forall>t \<in> set live. parentOf ?st' (root t) = None"
    using p4 by (simp_all add: pa)
  from e4 obtain evs where evs: "emitted st4 = emitted st @ evs"
    "SceneGraphChanged \<notin> set evs" "SceneSet \<notin> set evs" by blast
  have E: "\<exists>evs. emitted ?st' = emitted st @ evs @ [SceneSet] \<and>
               SceneGraphChanged \<notin> set evs \<and> SceneSet \<notin> set evs"
    using evs by (intro exI [of _ evs]) (simp add: em)
  show "\<exists>st3 st4 st'.
        removeAllChildren (setScene_prelude source st) = Some (Return st3) \<and>
        addAllChildren source st3 = Some (Return st4) \<and>
        setScene source st = Some (Return st') \<and>
        \<not> sceneGraphChanged_active st3 \<and> \<not> sceneGraphChanged_active st4 \<and>
        sceneGraphChanged_active st' \<and>
        childrenOf st3 (scene st) = [] \<and> (\<forall>t \<in> set live. parentOf st3 (root t) = None) \<and>
        childrenOf st' (scene st) = map root ts \<and> childrenOf st' source = [] \<and>
        (\<forall>t \<in> set ts. parentOf st' (root t) = Some (scene st)) \<and>
        (\<forall>t \<in> set live. parentOf st' (root t) = None) \<and>
        (\<exists>evs. emitted st' = emitted st @ evs @ [SceneSet] \<and>
               SceneGraphChanged \<notin> set evs \<and> SceneSet \<notin> set evs)"
    by (intro exI [of _ st3] exI [of _ st4] exI [of _ ?st'] conjI r3 r4 res off on c3 C P E)
qed

lemma fixture_set_scene_store:
  "childrenOf fixture_set_scene 0 = [3]" "childrenOf fixture_set_scene (Suc 0) = [5]"
  "childrenOf fixture_set_scene 3 = []" "childrenOf fixture_set_scene 6 = [7]"
  "childrenOf fixture_set_scene 7 = [8]" "childrenOf fixture_set_scene 8 = []"
  "parentOf fixture_set_scene 3 = Some 0" "parentOf fixture_set_scene 5 = Some 1"
  "parentOf fixture_set_scene 7 = Some 6"
  "obj fixture_set_scene 0 \<noteq> None" "obj fixture_set_scene 3 \<noteq> None"
  "obj fixture_set_scene 6 \<noteq> None" "obj fixture_set_scene 7 \<noteq> None"
  "obj fixture_set_scene 8 \<noteq> None"
  "scene fixture_set_scene = 0" "sceneHelpers fixture_set_scene = 1"
  "nextId (world fixture_set_scene) = 10"
  "helpers fixture_set_scene = [3 \<mapsto> 5]"
  "components fixture_set_scene SceneReferenceComponent_componentName \<noteq> None"
  "emitted fixture_set_scene = []"
  by (simp_all add: fixture_set_scene_def childrenOf_def parentOf_def par_def obj_def
      fixture_object_def SceneReferenceComponent_componentName_def)

lemma fixture_set_scene_settable:
  "settable 6 fixture_set_scene [Tree 3 []] [Tree 7 [Tree 8 []]]"
  by (simp add: settable_def sceneTree_def sourceTree_def helpersIn_def fixture_set_scene_store
      del: not_None_eq)

theorem setScene_effects_witness:
  "settable 6 fixture_set_scene [Tree 3 []] [Tree 7 [Tree 8 []]] \<and>
   (\<exists>st'. setScene 6 fixture_set_scene = Some (Return st') \<and>
      childrenOf st' 0 = [7] \<and> childrenOf st' 6 = [] \<and>
      parentOf st' 7 = Some 0 \<and> parentOf st' 3 = None \<and>
      sceneGraphChanged_active st' \<and>
      (\<exists>evs. emitted st' = evs @ [SceneSet] \<and>
             SceneGraphChanged \<notin> set evs \<and> SceneSet \<notin> set evs))"
proof -
  let ?fx = fixture_set_scene
  let ?live = "[Tree 3 []]"
  let ?ts = "[Tree 7 [Tree 8 []]]"
  note h = fixture_set_scene_settable
  from setScene_effects [of 6 ?fx ?live ?ts] h obtain st' where
    r: "setScene 6 ?fx = Some (Return st')"
    and on: "sceneGraphChanged_active st'"
    and c: "childrenOf st' (scene ?fx) = map root ?ts" "childrenOf st' 6 = []"
    and p: "\<forall>t \<in> set ?ts. parentOf st' (root t) = Some (scene ?fx)"
           "\<forall>t \<in> set ?live. parentOf st' (root t) = None"
    and e: "\<exists>evs. emitted st' = emitted ?fx @ evs @ [SceneSet] \<and>
               SceneGraphChanged \<notin> set evs \<and> SceneSet \<notin> set evs"
    by blast
  from c have c': "childrenOf st' 0 = [7]" "childrenOf st' 6 = []"
    by (simp_all add: fixture_set_scene_store)
  from p have p': "parentOf st' 7 = Some 0" "parentOf st' 3 = None"
    by (simp_all add: fixture_set_scene_store)
  from e have e': "\<exists>evs. emitted st' = evs @ [SceneSet] \<and>
             SceneGraphChanged \<notin> set evs \<and> SceneSet \<notin> set evs"
    by (simp add: fixture_set_scene_store)
  from h r c' p' on e' show ?thesis by blast
qed

end
